theory Spec2Isabelle
  imports Main "HOL-Library.Word"
begin

unbundle bit_operations_syntax

section \<open>FastTOML: a shallow embedding of \<^verbatim>\<open>toml_parser.cpp\<close>\<close>

text \<open>
  Bytes of the input are \<^typ>\<open>char\<close>, a \<^verbatim>\<open>std::string\<close> is a \<^typ>\<open>string\<close>.
  A \<^verbatim>\<open>const char*\<close> into the input buffer is the offset of the byte it points at, so
  \<^verbatim>\<open>current_\<close> and \<^verbatim>\<open>end_\<close> are natural numbers and \<^verbatim>\<open>*p\<close> is \<open>input ! p\<close>.
\<close>

subsection \<open>Character classes\<close>

definition is_whitespace :: "char \<Rightarrow> bool" where
  "is_whitespace c = (c = CHR '' '' \<or> c = CHR 0x09 \<or> c = CHR 0x0D \<or> c = CHR 0x0A)"

definition is_whitespace_no_nl :: "char \<Rightarrow> bool" where
  "is_whitespace_no_nl c = (c = CHR '' '' \<or> c = CHR 0x09 \<or> c = CHR 0x0D)"

text \<open>\<^verbatim>\<open>std::isdigit\<close> and \<^verbatim>\<open>std::isalnum\<close> in the "C" locale.\<close>

definition isdigit :: "char \<Rightarrow> bool" where
  "isdigit c = (48 \<le> (of_char c :: nat) \<and> (of_char c :: nat) \<le> 57)"

definition isalnum :: "char \<Rightarrow> bool" where
  "isalnum c = (isdigit c \<or> (65 \<le> (of_char c :: nat) \<and> (of_char c :: nat) \<le> 90)
                \<or> (97 \<le> (of_char c :: nat) \<and> (of_char c :: nat) \<le> 122))"

subsection \<open>\<^verbatim>\<open>simd_utils\<close>: the scalar loops\<close>

function skip_whitespace_scalar :: "string \<Rightarrow> nat \<Rightarrow> nat \<Rightarrow> nat" where
  "skip_whitespace_scalar buf ptr end =
     (if ptr < end \<and> is_whitespace (buf ! ptr)
      then skip_whitespace_scalar buf (Suc ptr) end else ptr)"
  by pat_completeness auto
termination
  by (relation "measure (\<lambda>(buf, ptr, end). end - ptr)") auto

function skip_whitespace_no_nl_scalar :: "string \<Rightarrow> nat \<Rightarrow> nat \<Rightarrow> nat" where
  "skip_whitespace_no_nl_scalar buf ptr end =
     (if ptr < end \<and> is_whitespace_no_nl (buf ! ptr)
      then skip_whitespace_no_nl_scalar buf (Suc ptr) end else ptr)"
  by pat_completeness auto
termination
  by (relation "measure (\<lambda>(buf, ptr, end). end - ptr)") auto

function find_char_scalar :: "string \<Rightarrow> nat \<Rightarrow> nat \<Rightarrow> char \<Rightarrow> nat" where
  "find_char_scalar buf ptr end c =
     (if ptr < end \<and> buf ! ptr \<noteq> c
      then find_char_scalar buf (Suc ptr) end c else ptr)"
  by pat_completeness auto
termination
  by (relation "measure (\<lambda>(buf, ptr, end, c). end - ptr)") auto

declare skip_whitespace_scalar.simps [simp del]
declare skip_whitespace_no_nl_scalar.simps [simp del]
declare find_char_scalar.simps [simp del]

subsection \<open>\<^verbatim>\<open>simd_utils\<close>: the AVX2 fast path\<close>

text \<open>
  A 256-bit register holds 32 byte lanes. \<^verbatim>\<open>_mm256_cmpeq_epi8\<close> sets a lane to 0xFF or
  0x00; only the top bit of a lane is read back (by \<^verbatim>\<open>_mm256_movemask_epi8\<close>), so a
  comparison result is kept as one truth value per lane.
\<close>

definition mm256_loadu_si256 :: "string \<Rightarrow> nat \<Rightarrow> string" where
  "mm256_loadu_si256 buf ptr = take 32 (drop ptr buf)"

definition mm256_cmpeq_epi8 :: "string \<Rightarrow> char \<Rightarrow> bool list" where
  "mm256_cmpeq_epi8 chunk c = map (\<lambda>b. b = c) chunk"

definition mm256_or_si256 :: "bool list \<Rightarrow> bool list \<Rightarrow> bool list" where
  "mm256_or_si256 a b = map (\<lambda>(x, y). x \<or> y) (zip a b)"

definition mm256_movemask_epi8 :: "bool list \<Rightarrow> 32 word" where
  "mm256_movemask_epi8 lanes = horner_sum of_bool 2 lanes"

text \<open>Count trailing zeros of a 32-bit value (only ever called on a non-zero one).\<close>

definition ctz :: "32 word \<Rightarrow> nat" where
  "ctz x = length (takeWhile (\<lambda>n. \<not> bit x n) [0..<32])"

function skip_whitespace_avx2_loop :: "string \<Rightarrow> nat \<Rightarrow> nat \<Rightarrow> nat" where
  "skip_whitespace_avx2_loop buf ptr end =
     (if int end - int ptr \<ge> 32 then
        (let chunk = mm256_loadu_si256 buf ptr;
             eq_space = mm256_cmpeq_epi8 chunk (CHR '' '');
             eq_tab = mm256_cmpeq_epi8 chunk (CHR 0x09);
             eq_cr = mm256_cmpeq_epi8 chunk (CHR 0x0D);
             eq_nl = mm256_cmpeq_epi8 chunk (CHR 0x0A);
             combined = mm256_or_si256 (mm256_or_si256 eq_space eq_tab)
                                       (mm256_or_si256 eq_cr eq_nl);
             mask = mm256_movemask_epi8 combined
         in if mask \<noteq> 0xFFFFFFFF then ptr + ctz (NOT mask)
            else skip_whitespace_avx2_loop buf (ptr + 32) end)
      else skip_whitespace_scalar buf ptr end)"
  by pat_completeness auto
termination
  by (relation "measure (\<lambda>(buf, ptr, end). end - ptr)") auto

definition skip_whitespace_avx2 :: "string \<Rightarrow> nat \<Rightarrow> nat \<Rightarrow> nat" where
  "skip_whitespace_avx2 buf ptr end =
     (if int end - int ptr < 32 then skip_whitespace_scalar buf ptr end
      else skip_whitespace_avx2_loop buf ptr end)"

function skip_whitespace_no_nl_avx2_loop :: "string \<Rightarrow> nat \<Rightarrow> nat \<Rightarrow> nat" where
  "skip_whitespace_no_nl_avx2_loop buf ptr end =
     (if int end - int ptr \<ge> 32 then
        (let chunk = mm256_loadu_si256 buf ptr;
             eq_space = mm256_cmpeq_epi8 chunk (CHR '' '');
             eq_tab = mm256_cmpeq_epi8 chunk (CHR 0x09);
             eq_cr = mm256_cmpeq_epi8 chunk (CHR 0x0D);
             combined = mm256_or_si256 (mm256_or_si256 eq_space eq_tab) eq_cr;
             mask = mm256_movemask_epi8 combined
         in if mask \<noteq> 0xFFFFFFFF then ptr + ctz (NOT mask)
            else skip_whitespace_no_nl_avx2_loop buf (ptr + 32) end)
      else skip_whitespace_no_nl_scalar buf ptr end)"
  by pat_completeness auto
termination
  by (relation "measure (\<lambda>(buf, ptr, end). end - ptr)") auto

definition skip_whitespace_no_nl_avx2 :: "string \<Rightarrow> nat \<Rightarrow> nat \<Rightarrow> nat" where
  "skip_whitespace_no_nl_avx2 buf ptr end =
     (if int end - int ptr < 32 then skip_whitespace_no_nl_scalar buf ptr end
      else skip_whitespace_no_nl_avx2_loop buf ptr end)"

function find_char_avx2_loop :: "string \<Rightarrow> nat \<Rightarrow> nat \<Rightarrow> char \<Rightarrow> nat" where
  "find_char_avx2_loop buf ptr end c =
     (if int end - int ptr \<ge> 32 then
        (let chunk = mm256_loadu_si256 buf ptr;
             eq = mm256_cmpeq_epi8 chunk c;
             mask = mm256_movemask_epi8 eq
         in if mask \<noteq> 0 then ptr + ctz mask
            else find_char_avx2_loop buf (ptr + 32) end c)
      else find_char_scalar buf ptr end c)"
  by pat_completeness auto
termination
  by (relation "measure (\<lambda>(buf, ptr, end, c). end - ptr)") auto

definition find_char_avx2 :: "string \<Rightarrow> nat \<Rightarrow> nat \<Rightarrow> char \<Rightarrow> nat" where
  "find_char_avx2 buf ptr end c =
     (if int end - int ptr < 32 then find_char_scalar buf ptr end c
      else find_char_avx2_loop buf ptr end c)"

declare skip_whitespace_avx2_loop.simps [simp del]
declare skip_whitespace_no_nl_avx2_loop.simps [simp del]
declare find_char_avx2_loop.simps [simp del]

subsection \<open>Reference scan used to relate the two implementations\<close>

text \<open>
  The position a scan must return, written without a loop: \<open>ptr\<close> plus the length of the
  longest run of bytes satisfying \<open>P\<close> that starts at \<open>ptr\<close> and stays below \<open>end\<close>.
\<close>
definition skipP :: "(char \<Rightarrow> bool) \<Rightarrow> string \<Rightarrow> nat \<Rightarrow> nat \<Rightarrow> nat" where
  "skipP P buf ptr end = ptr + length (takeWhile P (take (end - ptr) (drop ptr buf)))"

text \<open>A 39-byte buffer that starts with more than one AVX2 chunk of blanks.\<close>

definition avx2_sample :: string where
  "avx2_sample = replicate 33 (CHR '' '') @ ''\<newline>x = 1''"

subsection \<open>Values and the object store\<close>

text \<open>
  A \<^verbatim>\<open>double\<close> is kept symbolically: the special values the parser builds itself, and
  \<open>Stod s\<close> for the number \<^verbatim>\<open>std::stod\<close> returns on the text \<open>s\<close>.
\<close>

datatype double = Infinity | NegInfinity | QuietNaN | NegQuietNaN | Zero | Stod string

text \<open>
  A \<^verbatim>\<open>system_clock::time_point\<close> is a number of whole seconds since the epoch plus
  the sub-second part, a \<^verbatim>\<open>double\<close>.
\<close>

datatype time_point = TimePoint int double

text \<open>
  \<^verbatim>\<open>TomlValue\<close>, the variant of eight alternatives. \<^verbatim>\<open>Integer\<close> is \<^verbatim>\<open>int64_t\<close>; every
  \<^verbatim>\<open>Integer\<close> the parser builds comes out of \<^verbatim>\<open>std::stoll\<close>, which throws instead of
  wrapping, so the payload is an \<^typ>\<open>int\<close> and the range check is part of \<open>stoll\<close> below.
  A \<^verbatim>\<open>shared_ptr<Table>\<close> (\<^verbatim>\<open>shared_ptr<Array>\<close>) is the address of a table (array) in
  the store.
\<close>

datatype toml_value =
    Integer int
  | Float double
  | Boolean bool
  | String string
  | DateTime time_point
  | DateTimeOffset time_point int
  | TablePtr nat
  | ArrayPtr nat

text \<open>\<^verbatim>\<open>Table::values\<close>, with \<^verbatim>\<open>Table::has\<close> and \<^verbatim>\<open>Table::set\<close>.\<close>

type_synonym table = "(string \<times> toml_value) list"

definition has :: "table \<Rightarrow> string \<Rightarrow> bool" where
  "has t key = (map_of t key \<noteq> None)"

fun table_set :: "table \<Rightarrow> string \<Rightarrow> toml_value \<Rightarrow> table" where
  "table_set [] key v = [(key, v)]"
| "table_set ((k, w) # t) key v = (if k = key then (k, v) # t else (k, w) # table_set t key v)"

text \<open>
  The parser object (member names lose their trailing underscore, \<^verbatim>\<open>end_\<close> is
  \<open>endp\<close>). \<open>input\<close> is the buffer \<^verbatim>\<open>current_\<close> and \<^verbatim>\<open>end_\<close> point into;
  \<open>tables\<close> and \<open>arrays\<close> are the objects allocated so far, an address being an index.
  A null \<^verbatim>\<open>shared_ptr\<close> is \<open>None\<close>.
\<close>

record parser =
  error_message :: string
  input :: string
  current :: nat
  endp :: nat
  root_table :: nat
  current_table :: "nat option"
  array_of_tables_paths :: "string list set"
  tables :: "table list"
  arrays :: "toml_value list list"

text \<open>\<^verbatim>\<open>std::make_shared<Table>()\<close> and \<^verbatim>\<open>std::make_shared<Array>()\<close>.\<close>

definition make_shared_Table :: "parser \<Rightarrow> nat \<times> parser" where
  "make_shared_Table st = (length (tables st), st\<lparr>tables := tables st @ [[]]\<rparr>)"

definition make_shared_Array :: "parser \<Rightarrow> nat \<times> parser" where
  "make_shared_Array st = (length (arrays st), st\<lparr>arrays := arrays st @ [[]]\<rparr>)"

text \<open>\<^verbatim>\<open>t->set(key, value)\<close> and \<^verbatim>\<open>arr->append(value)\<close> through a pointer.\<close>

definition set_in :: "nat \<Rightarrow> string \<Rightarrow> toml_value \<Rightarrow> parser \<Rightarrow> parser" where
  "set_in t key v st = st\<lparr>tables := (tables st)[t := table_set (tables st ! t) key v]\<rparr>"

definition append_to :: "nat \<Rightarrow> toml_value \<Rightarrow> parser \<Rightarrow> parser" where
  "append_to a v st = st\<lparr>arrays := (arrays st)[a := arrays st ! a @ [v]]\<rparr>"

text \<open>The constructor \<^verbatim>\<open>TomlParser::TomlParser()\<close>.\<close>

definition TomlParser :: parser where
  "TomlParser = \<lparr>error_message = [], input = [], current = 0, endp = 0, root_table = 0,
     current_table = Some 0, array_of_tables_paths = {}, tables = [[]], arrays = []\<rparr>"

subsection \<open>Cursor and error state\<close>

definition eof :: "parser \<Rightarrow> bool" where
  "eof st = (current st \<ge> endp st)"

definition peek :: "parser \<Rightarrow> char" where
  "peek st = (if eof st then CHR 0x00 else input st ! current st)"

definition advance :: "parser \<Rightarrow> char \<times> parser" where
  "advance st = (if eof st then (CHR 0x00, st)
                 else (input st ! current st, st\<lparr>current := current st + 1\<rparr>))"

definition has_error :: "parser \<Rightarrow> bool" where
  "has_error st = (error_message st \<noteq> [])"

definition set_error :: "string \<Rightarrow> parser \<Rightarrow> parser" where
  "set_error message st = (if error_message st = [] then st\<lparr>error_message := message\<rparr> else st)"

definition expect_char :: "char \<Rightarrow> parser \<Rightarrow> parser" where
  "expect_char c st =
     (if eof st \<or> peek st \<noteq> c
      then set_error (''Expected '' @ [CHR 0x27, c, CHR 0x27] @ '' but found '' @ [CHR 0x27]
                      @ (if eof st then ''EOF'' else [peek st]) @ [CHR 0x27]) st
      else snd (advance st))"

definition peek_char :: "char \<Rightarrow> parser \<Rightarrow> bool" where
  "peek_char c st = (\<not> eof st \<and> peek st = c)"

text \<open>
  \<^verbatim>\<open>current_[k]\<close>, read by the source only under a bound check that is repeated in the
  model at every use.
\<close>

definition at :: "parser \<Rightarrow> nat \<Rightarrow> char" where
  "at st k = input st ! (current st + k)"

text \<open>
  The member functions \<^verbatim>\<open>skip_whitespace\<close> and \<^verbatim>\<open>skip_whitespace_no_nl\<close> call into
  \<^verbatim>\<open>simd_utils\<close>. The scalar definitions stand for both builds.
\<close>

definition skip_whitespace :: "parser \<Rightarrow> parser" where
  "skip_whitespace st = st\<lparr>current := skip_whitespace_scalar (input st) (current st) (endp st)\<rparr>"

definition skip_whitespace_no_nl :: "parser \<Rightarrow> parser" where
  "skip_whitespace_no_nl st =
     st\<lparr>current := skip_whitespace_no_nl_scalar (input st) (current st) (endp st)\<rparr>"

function skip_comment_loop :: "parser \<Rightarrow> parser" where
  "skip_comment_loop st =
     (if \<not> eof st \<and> peek st \<noteq> CHR 0x0A then skip_comment_loop (snd (advance st)) else st)"
  by pat_completeness auto
termination
  by (relation "measure (\<lambda>st. endp st - current st)") (auto simp: eof_def advance_def)

declare skip_comment_loop.simps [simp del]

definition skip_comment :: "parser \<Rightarrow> parser" where
  "skip_comment st = (if peek st = CHR ''#'' then skip_comment_loop st else st)"

subsection \<open>Pre-validation of the input\<close>

definition is_forbidden_control :: "char \<Rightarrow> bool" where
  "is_forbidden_control c =
     (let u = (of_char c :: nat)
      in if u = 0x09 \<or> u = 0x0A then False
         else if u = 0x0D then False
         else if u \<le> 0x1F \<or> u = 0x7F then True
         else False)"

text \<open>
  The loop at the head of \<^verbatim>\<open>parse\<close>, from index \<open>i\<close>: \<open>True\<close> when it reaches one of
  its two \<^verbatim>\<open>set_error(...); return nullptr;\<close> exits.
\<close>

function control_scan :: "string \<Rightarrow> nat \<Rightarrow> bool" where
  "control_scan inp i =
     (if i < length inp then
        (if inp ! i = CHR 0x0D then
           (if i + 1 \<ge> length inp \<or> inp ! (i + 1) \<noteq> CHR 0x0A then True
            else control_scan inp (i + 1))
         else if is_forbidden_control (inp ! i) then True
         else control_scan inp (i + 1))
      else False)"
  by pat_completeness auto
termination
  by (relation "measure (\<lambda>(inp, i). length inp - i)") auto

declare control_scan.simps [simp del]

definition control_message :: string where
  "control_message =
     ''Control characters (U+0000-U+001F except tab/LF/CR in CRLF) and U+007F are not permitted''"

subsection \<open>Escape sequences\<close>

definition hex_digit :: "char \<Rightarrow> int" where
  "hex_digit c =
     (if 48 \<le> (of_char c :: int) \<and> (of_char c :: int) \<le> 57 then of_char c - 48
      else if 65 \<le> (of_char c :: int) \<and> (of_char c :: int) \<le> 70 then of_char c - 65 + 10
      else if 97 \<le> (of_char c :: int) \<and> (of_char c :: int) \<le> 102 then of_char c - 97 + 10
      else - 1)"

text \<open>\<^verbatim>\<open>static_cast<char>\<close> of a 32-bit value keeps its low eight bits.\<close>

definition to_char :: "32 word \<Rightarrow> char" where
  "to_char w = char_of (unat w)"

text \<open>\<^verbatim>\<open>append_utf8(out, cp)\<close>: the returned flag and the new \<^verbatim>\<open>out\<close>.\<close>

definition append_utf8 :: "string \<Rightarrow> 32 word \<Rightarrow> bool \<times> string" where
  "append_utf8 out cp =
     (if cp > 0x10FFFF \<or> (cp \<ge> 0xD800 \<and> cp \<le> 0xDFFF) then (False, out)
      else if cp \<le> 0x7F then (True, out @ [to_char cp])
      else if cp \<le> 0x7FF then
        (True, out @ [to_char (0xC0 OR drop_bit 6 cp), to_char (0x80 OR (cp AND 0x3F))])
      else if cp \<le> 0xFFFF then
        (True, out @ [to_char (0xE0 OR drop_bit 12 cp),
                      to_char (0x80 OR (drop_bit 6 cp AND 0x3F)),
                      to_char (0x80 OR (cp AND 0x3F))])
      else
        (True, out @ [to_char (0xF0 OR drop_bit 18 cp),
                      to_char (0x80 OR (drop_bit 12 cp AND 0x3F)),
                      to_char (0x80 OR (drop_bit 6 cp AND 0x3F)),
                      to_char (0x80 OR (cp AND 0x3F))]))"

text \<open>U+FFFD, as the three bytes the source writes.\<close>

definition replacement_character :: string where
  "replacement_character = [CHR 0xEF, CHR 0xBF, CHR 0xBD]"

text \<open>
  The \<^verbatim>\<open>for\<close> loop of \<^verbatim>\<open>parse_unicode_escape\<close> with \<open>k\<close> digits still to read
  (\<open>k = num_hex_digits - i\<close>). \<open>Inl\<close> is the \<^verbatim>\<open>return\<close> inside the loop, \<open>Inr (k, cp)\<close>
  the loop's exit with \<open>k\<close> digits missing.
\<close>

fun parse_unicode_escape_loop :: "nat \<Rightarrow> 32 word \<Rightarrow> parser \<Rightarrow> (string + nat \<times> 32 word) \<times> parser" where
  "parse_unicode_escape_loop 0 cp st = (Inr (0, cp), st)"
| "parse_unicode_escape_loop (Suc k) cp st =
     (if eof st then (Inr (Suc k, cp), st)
      else (let d = hex_digit (peek st)
            in if d < 0
               then (Inl replacement_character, set_error ''Invalid hex digit in Unicode escape'' st)
               else parse_unicode_escape_loop k (push_bit 4 cp OR of_int d) (snd (advance st))))"

definition parse_unicode_escape :: "nat \<Rightarrow> parser \<Rightarrow> string \<times> parser" where
  "parse_unicode_escape num_hex_digits st =
     (case parse_unicode_escape_loop num_hex_digits 0 st of
        (Inl s, st') \<Rightarrow> (s, st')
      | (Inr (missing, cp), st') \<Rightarrow>
          if missing \<noteq> 0 then (replacement_character, set_error ''Unicode escape truncated'' st')
          else if cp > 0x10FFFF \<or> (cp \<ge> 0xD800 \<and> cp \<le> 0xDFFF)
          then (replacement_character, set_error ''Invalid Unicode codepoint in escape'' st')
          else (snd (append_utf8 [] cp), st'))"

definition invalid_escape_message :: "char \<Rightarrow> string" where
  "invalid_escape_message c =
     ''Invalid escape sequence in string: '' @ [CHR 0x5C, c] @ '' (allowed: ''
     @ [CHR 0x5C] @ ''b '' @ [CHR 0x5C] @ ''t '' @ [CHR 0x5C] @ ''n '' @ [CHR 0x5C] @ ''f ''
     @ [CHR 0x5C] @ ''r '' @ [CHR 0x5C, CHR 0x22] @ '' '' @ [CHR 0x5C, CHR 0x5C] @ '' ''
     @ [CHR 0x5C] @ ''uXXXX '' @ [CHR 0x5C] @ ''UXXXXXXXX)''"

definition parse_escape_sequence :: "parser \<Rightarrow> string \<times> parser" where
  "parse_escape_sequence st =
     (if eof st then ([], set_error ''Unexpected end of string in escape sequence'' st)
      else (let c = fst (advance st); st1 = snd (advance st)
            in if c = CHR ''b'' then ([CHR 0x08], st1)
               else if c = CHR ''t'' then ([CHR 0x09], st1)
               else if c = CHR ''n'' then ([CHR 0x0A], st1)
               else if c = CHR ''f'' then ([CHR 0x0C], st1)
               else if c = CHR ''r'' then ([CHR 0x0D], st1)
               else if c = CHR 0x22 then ([CHR 0x22], st1)
               else if c = CHR 0x5C then ([CHR 0x5C], st1)
               else if c = CHR ''u'' then parse_unicode_escape 4 st1
               else if c = CHR ''U'' then parse_unicode_escape 8 st1
               else ([], set_error (invalid_escape_message c) st1)))"

subsection \<open>How a step moves the cursor\<close>

text \<open>
  \<open>forward st st'\<close>: from \<open>st\<close> to \<open>st'\<close> the buffer and \<^verbatim>\<open>end_\<close> are the same and the cursor
  has not moved back, nor past \<^verbatim>\<open>end_\<close> unless it was there already. The loops below
  terminate because every step is of this kind.
\<close>

definition forward :: "parser \<Rightarrow> parser \<Rightarrow> bool" where
  "forward st st' = (input st' = input st \<and> endp st' = endp st \<and> current st \<le> current st'
                     \<and> current st' \<le> max (current st) (endp st))"

lemma forward_refl [simp]: "forward st st"
  by (simp add: forward_def)

lemma forward_trans: "forward a b \<Longrightarrow> forward b c \<Longrightarrow> forward a c"
  by (auto simp: forward_def)

lemma forward_set_error [simp]: "forward st (set_error m st)"
  by (simp add: forward_def set_error_def)

lemma forward_set_error_iff [simp]: "forward st (set_error m st') = forward st st'"
  by (simp add: forward_def set_error_def)

lemma forward_advance [simp]: "forward st (snd (advance st))"
  by (auto simp: forward_def advance_def eof_def)

lemma advance_moves:
  "\<not> eof st \<Longrightarrow> current (snd (advance st)) = Suc (current st) \<and> endp (snd (advance st)) = endp st"
  by (simp add: advance_def)

lemma forward_measure: "forward st st' \<Longrightarrow> endp st' - current st' \<le> endp st - current st"
  by (auto simp: forward_def)

lemma forward_after_advance:
  "\<not> eof st \<Longrightarrow> forward (snd (advance st)) st' \<Longrightarrow> endp st' - current st' < endp st - current st"
  by (auto simp: forward_def advance_def eof_def)

lemma forward_expect_char [simp]: "forward st (expect_char c st)"
  by (simp add: expect_char_def)

lemma forward_parse_unicode_escape_loop:
  "forward st (snd (parse_unicode_escape_loop k cp st))"
proof (induction k arbitrary: cp st)
  case 0
  show ?case by simp
next
  case (Suc k)
  show ?case
    using forward_trans [OF forward_advance Suc.IH] by (simp add: Let_def)
qed

lemma forward_parse_unicode_escape [simp]: "forward st (snd (parse_unicode_escape n st))"
  using forward_parse_unicode_escape_loop [of st n 0]
  by (auto simp: parse_unicode_escape_def split: prod.splits sum.splits)

lemma forward_parse_escape_sequence [simp]: "forward st (snd (parse_escape_sequence st))"
  using forward_trans [OF forward_advance forward_parse_unicode_escape]
  by (simp add: parse_escape_sequence_def Let_def)

subsection \<open>Strings\<close>

function parse_basic_string_loop :: "parser \<Rightarrow> string \<Rightarrow> string \<times> parser" where
  "parse_basic_string_loop st result =
     (if \<not> eof st \<and> peek st \<noteq> CHR 0x22 then
        (if peek st = CHR 0x5C then
           (let r = parse_escape_sequence (snd (advance st))
            in parse_basic_string_loop (snd r) (result @ fst r))
         else parse_basic_string_loop (snd (advance st)) (result @ [fst (advance st)]))
      else (result, st))"
  by pat_completeness auto
termination
  by (relation "measure (\<lambda>(st, result). endp st - current st)")
     (auto intro: forward_after_advance)

definition parse_basic_string :: "parser \<Rightarrow> string \<times> parser" where
  "parse_basic_string st =
     (let r = parse_basic_string_loop (expect_char (CHR 0x22) st) []
      in (fst r, expect_char (CHR 0x22) (snd r)))"

function parse_literal_string_loop :: "parser \<Rightarrow> string \<Rightarrow> string \<times> parser" where
  "parse_literal_string_loop st result =
     (if \<not> eof st \<and> peek st \<noteq> CHR 0x27
      then parse_literal_string_loop (snd (advance st)) (result @ [fst (advance st)])
      else (result, st))"
  by pat_completeness auto
termination
  by (relation "measure (\<lambda>(st, result). endp st - current st)")
     (auto intro: forward_after_advance)

definition parse_literal_string :: "parser \<Rightarrow> string \<times> parser" where
  "parse_literal_string st =
     (let r = parse_literal_string_loop (expect_char (CHR 0x27) st) []
      in (fst r, expect_char (CHR 0x27) (snd r)))"

text \<open>
  \<^verbatim>\<open>while (!eof() && peek() == q) { advance(); n++; }\<close>, the inner loop of both multiline
  parsers.
\<close>

function count_quotes :: "char \<Rightarrow> parser \<Rightarrow> nat \<Rightarrow> nat \<times> parser" where
  "count_quotes q st n =
     (if \<not> eof st \<and> peek st = q then count_quotes q (snd (advance st)) (n + 1) else (n, st))"
  by pat_completeness auto
termination
  by (relation "measure (\<lambda>(q, st, n). endp st - current st)")
     (auto intro: forward_after_advance)

declare parse_basic_string_loop.simps [simp del]
declare parse_literal_string_loop.simps [simp del]
declare count_quotes.simps [simp del]

lemma forward_count_quotes: "forward st (snd (count_quotes q st n))"
proof (induction q st n rule: count_quotes.induct)
  case (1 q st n)
  show ?case
  proof (cases "\<not> eof st \<and> peek st = q")
    case True
    with 1 forward_trans [OF forward_advance] show ?thesis
      by (subst count_quotes.simps) simp
  next
    case False
    then show ?thesis by (subst count_quotes.simps) auto
  qed
qed

lemma count_quotes_moves:
  assumes "\<not> eof st" "peek st = q"
  shows "endp (snd (count_quotes q st n)) - current (snd (count_quotes q st n)) < endp st - current st"
proof -
  have "count_quotes q st n = count_quotes q (snd (advance st)) (n + 1)"
    using assms by (subst count_quotes.simps) simp
  then show ?thesis
    using forward_after_advance [OF assms(1) forward_count_quotes [of "snd (advance st)" q "n + 1"]]
    by simp
qed

function parse_multiline_basic_string_loop :: "parser \<Rightarrow> string \<Rightarrow> string \<times> parser" where
  "parse_multiline_basic_string_loop st result =
     (if \<not> eof st then
        (if peek st = CHR 0x22 then
           (let n = fst (count_quotes (CHR 0x22) st 0); st1 = snd (count_quotes (CHR 0x22) st 0)
            in if n \<ge> 3 then
                 (if n = 3 \<or> eof st1 \<or> peek st1 = CHR 0x0A \<or> peek st1 = CHR 0x0D
                  then (result @ replicate (n - 3) (CHR 0x22), st1)
                  else parse_multiline_basic_string_loop st1 (result @ replicate (n - 3) (CHR 0x22)))
               else parse_multiline_basic_string_loop st1 (result @ replicate n (CHR 0x22)))
         else if peek st = CHR 0x5C then
           (let r = parse_escape_sequence (snd (advance st))
            in parse_multiline_basic_string_loop (snd r) (result @ fst r))
         else parse_multiline_basic_string_loop (snd (advance st)) (result @ [fst (advance st)]))
      else (result, set_error ''Unclosed multiline basic string'' st))"
  by pat_completeness auto
termination
  by (relation "measure (\<lambda>(st, result). endp st - current st)")
     (auto intro: forward_after_advance count_quotes_moves)

definition parse_multiline_basic_string :: "parser \<Rightarrow> string \<times> parser" where
  "parse_multiline_basic_string st =
     parse_multiline_basic_string_loop
       (if \<not> eof st \<and> peek st = CHR 0x0A then snd (advance st) else st) []"

function parse_multiline_literal_string_loop :: "parser \<Rightarrow> string \<Rightarrow> string \<times> parser" where
  "parse_multiline_literal_string_loop st result =
     (if \<not> eof st then
        (if peek st = CHR 0x27 then
           (let n = fst (count_quotes (CHR 0x27) st 0); st1 = snd (count_quotes (CHR 0x27) st 0)
            in if n \<ge> 3 then
                 (if n = 3 \<or> eof st1 \<or> peek st1 = CHR 0x0A \<or> peek st1 = CHR 0x0D
                  then (result @ replicate (n - 3) (CHR 0x27), st1)
                  else parse_multiline_literal_string_loop st1 (result @ replicate (n - 3) (CHR 0x27)))
               else parse_multiline_literal_string_loop st1 (result @ replicate n (CHR 0x27)))
         else parse_multiline_literal_string_loop (snd (advance st)) (result @ [fst (advance st)]))
      else (result, set_error ''Unclosed multiline literal string'' st))"
  by pat_completeness auto
termination
  by (relation "measure (\<lambda>(st, result). endp st - current st)")
     (auto intro: forward_after_advance count_quotes_moves)

definition parse_multiline_literal_string :: "parser \<Rightarrow> string \<times> parser" where
  "parse_multiline_literal_string st =
     parse_multiline_literal_string_loop
       (if \<not> eof st \<and> peek st = CHR 0x0A then snd (advance st) else st) []"

declare parse_multiline_basic_string_loop.simps [simp del]
declare parse_multiline_literal_string_loop.simps [simp del]

subsection \<open>The skipping steps move the cursor forward\<close>
lemma skip_whitespace_scalar_bounds:
  "ptr \<le> skip_whitespace_scalar buf ptr end \<and> skip_whitespace_scalar buf ptr end \<le> max ptr end"
proof (induction buf ptr "end" rule: skip_whitespace_scalar.induct)
  case (1 buf ptr e)
  show ?case
  proof (cases "ptr < e \<and> is_whitespace (buf ! ptr)")
    case True
    with 1 show ?thesis by (subst (1 2) skip_whitespace_scalar.simps) auto
  next
    case False
    then show ?thesis by (subst (1 2) skip_whitespace_scalar.simps) auto
  qed
qed

lemma skip_whitespace_no_nl_scalar_bounds:
  "ptr \<le> skip_whitespace_no_nl_scalar buf ptr end
   \<and> skip_whitespace_no_nl_scalar buf ptr end \<le> max ptr end"
proof (induction buf ptr "end" rule: skip_whitespace_no_nl_scalar.induct)
  case (1 buf ptr e)
  show ?case
  proof (cases "ptr < e \<and> is_whitespace_no_nl (buf ! ptr)")
    case True
    with 1 show ?thesis by (subst (1 2) skip_whitespace_no_nl_scalar.simps) auto
  next
    case False
    then show ?thesis by (subst (1 2) skip_whitespace_no_nl_scalar.simps) auto
  qed
qed

lemma forward_skip_whitespace [simp]: "forward st (skip_whitespace st)"
  using skip_whitespace_scalar_bounds [of "current st" "input st" "endp st"]
  by (simp add: forward_def skip_whitespace_def)

lemma forward_skip_whitespace_no_nl [simp]: "forward st (skip_whitespace_no_nl st)"
  using skip_whitespace_no_nl_scalar_bounds [of "current st" "input st" "endp st"]
  by (simp add: forward_def skip_whitespace_no_nl_def)

lemma forward_skip_comment_loop: "forward st (skip_comment_loop st)"
proof (induction st rule: skip_comment_loop.induct)
  case (1 st)
  show ?case
  proof (cases "\<not> eof st \<and> peek st \<noteq> CHR 0x0A")
    case True
    with 1 forward_trans [OF forward_advance] show ?thesis
      by (subst skip_comment_loop.simps) simp
  next
    case False
    then show ?thesis by (subst skip_comment_loop.simps) auto
  qed
qed

lemma forward_skip_comment [simp]: "forward st (skip_comment st)"
  by (simp add: skip_comment_def forward_skip_comment_loop)

text \<open>
  The parser as \<^verbatim>\<open>parse\<close> positions it on a buffer \<open>s\<close>: \<^verbatim>\<open>current_\<close> at its first byte,
  \<^verbatim>\<open>end_\<close> one past its last.
\<close>

definition on_input :: "string \<Rightarrow> parser" where
  "on_input s = TomlParser\<lparr>input := s, current := 0, endp := length s\<rparr>"

subsection \<open>Reference definitions for Unicode escapes\<close>

text \<open>
  What the escape claims speak of, written independently of the parser: the UTF-8 encoding
  of a code point by value ranges and division (RFC 3629), the code points that may be
  encoded, and the number a string of hexadecimal digits denotes.
\<close>

definition utf8_encoding :: "nat \<Rightarrow> string" where
  "utf8_encoding C =
     (if C < 0x80 then [char_of C]
      else if C < 0x800 then [char_of (0xC0 + C div 64), char_of (0x80 + C mod 64)]
      else if C < 0x10000 then
        [char_of (0xE0 + C div 4096), char_of (0x80 + C div 64 mod 64), char_of (0x80 + C mod 64)]
      else [char_of (0xF0 + C div 262144), char_of (0x80 + C div 4096 mod 64),
            char_of (0x80 + C div 64 mod 64), char_of (0x80 + C mod 64)])"

definition valid_codepoint :: "nat \<Rightarrow> bool" where
  "valid_codepoint C = (C \<le> 0x10FFFF \<and> \<not> (0xD800 \<le> C \<and> C \<le> 0xDFFF))"

definition hex_digit_value :: "char \<Rightarrow> nat option" where
  "hex_digit_value = map_of
     [(CHR ''0'', 0), (CHR ''1'', 1), (CHR ''2'', 2), (CHR ''3'', 3), (CHR ''4'', 4),
      (CHR ''5'', 5), (CHR ''6'', 6), (CHR ''7'', 7), (CHR ''8'', 8), (CHR ''9'', 9),
      (CHR ''a'', 10), (CHR ''b'', 11), (CHR ''c'', 12), (CHR ''d'', 13), (CHR ''e'', 14),
      (CHR ''f'', 15), (CHR ''A'', 10), (CHR ''B'', 11), (CHR ''C'', 12), (CHR ''D'', 13),
      (CHR ''E'', 14), (CHR ''F'', 15)]"

definition hex_value :: "string \<Rightarrow> nat" where
  "hex_value ds = foldl (\<lambda>n c. 16 * n + the (hex_digit_value c)) 0 ds"

subsection \<open>Tables, arrays of tables and dotted paths\<close>

definition already_defined :: "string \<Rightarrow> string \<Rightarrow> string" where
  "already_defined key what =
     ''Key '' @ [CHR 0x27] @ key @ [CHR 0x27] @ '' already defined as '' @ what"

text \<open>
  \<^verbatim>\<open>t->values[key]\<close> for a key the table has (the source reads it only after
  \<^verbatim>\<open>t->has(key)\<close>).
\<close>

definition value_at :: "parser \<Rightarrow> nat \<Rightarrow> string \<Rightarrow> toml_value" where
  "value_at st t key = the (map_of (tables st ! t) key)"

text \<open>
  The \<^verbatim>\<open>for\<close> loop of \<^verbatim>\<open>get_or_create_table_at_path\<close> from index \<open>i\<close> with the local
  pointer \<open>t\<close>; \<open>None\<close> is the returned \<^verbatim>\<open>nullptr\<close>. \<open>take (i + 1) path\<close> is
  \<^verbatim>\<open>path_so_far\<close>.
\<close>

function get_or_create_table_at_path_loop ::
  "string list \<Rightarrow> nat \<Rightarrow> nat \<Rightarrow> parser \<Rightarrow> nat option \<times> parser" where
  "get_or_create_table_at_path_loop path i t st =
     (if i < length path then
        (let key = path ! i in
         if has (tables st ! t) key then
           (case value_at st t key of
              TablePtr t' \<Rightarrow> get_or_create_table_at_path_loop path (i + 1) t' st
            | ArrayPtr arr \<Rightarrow>
                if take (i + 1) path \<notin> array_of_tables_paths st
                then (None, set_error ''Cannot extend static array with table header'' st)
                else if arrays st ! arr = []
                then (None, set_error ''Array of tables is empty'' st)
                else (case last (arrays st ! arr) of
                        TablePtr t' \<Rightarrow> get_or_create_table_at_path_loop path (i + 1) t' st
                      | _ \<Rightarrow> (None, set_error (already_defined key ''non-table'') st))
            | _ \<Rightarrow> (None, set_error (already_defined key ''non-table'') st))
         else
           (let new_table = fst (make_shared_Table st); st1 = snd (make_shared_Table st)
            in get_or_create_table_at_path_loop path (i + 1) new_table
                 (set_in t key (TablePtr new_table) st1)))
      else (Some t, st))"
  by pat_completeness auto
termination
  by (relation "measure (\<lambda>(path, i, t, st). length path - i)") auto

definition get_or_create_table_at_path :: "string list \<Rightarrow> parser \<Rightarrow> nat option \<times> parser" where
  "get_or_create_table_at_path path st = get_or_create_table_at_path_loop path 0 (root_table st) st"

text \<open>
  The prefix loop of \<^verbatim>\<open>get_or_create_array_append_table\<close>, which runs while
  \<^verbatim>\<open>i + 1 < path.size()\<close>.
\<close>

function array_append_prefix_loop ::
  "string list \<Rightarrow> nat \<Rightarrow> nat \<Rightarrow> parser \<Rightarrow> nat option \<times> parser" where
  "array_append_prefix_loop path i t st =
     (if i + 1 < length path then
        (let key = path ! i in
         if has (tables st ! t) key then
           (case value_at st t key of
              TablePtr t' \<Rightarrow> array_append_prefix_loop path (i + 1) t' st
            | ArrayPtr arr \<Rightarrow>
                if take (i + 1) path \<notin> array_of_tables_paths st
                then (None, set_error (already_defined key ''non-table'') st)
                else if arrays st ! arr = []
                then (None, set_error ''Array of tables is empty'' st)
                else (case last (arrays st ! arr) of
                        TablePtr t' \<Rightarrow> array_append_prefix_loop path (i + 1) t' st
                      | _ \<Rightarrow> (None, set_error (already_defined key ''non-array-of-tables'') st))
            | _ \<Rightarrow> (None, set_error (already_defined key ''non-table'') st))
         else
           (let new_table = fst (make_shared_Table st); st1 = snd (make_shared_Table st)
            in array_append_prefix_loop path (i + 1) new_table
                 (set_in t key (TablePtr new_table) st1)))
      else (Some t, st))"
  by pat_completeness auto
termination
  by (relation "measure (\<lambda>(path, i, t, st). length path - i)") auto

text \<open>\<^verbatim>\<open>std::holds_alternative<TablePtr>(elem)\<close>.\<close>

fun holds_TablePtr :: "toml_value \<Rightarrow> bool" where
  "holds_TablePtr (TablePtr t) = True"
| "holds_TablePtr v = False"

text \<open>The part of \<^verbatim>\<open>get_or_create_array_append_table\<close> behind the prefix loop.\<close>

definition array_append_last :: "string list \<Rightarrow> nat \<Rightarrow> parser \<Rightarrow> nat option \<times> parser" where
  "array_append_last path t st =
     (let last_key = last path in
      if \<not> has (tables st ! t) last_key then
        (let st1 = st\<lparr>array_of_tables_paths := insert path (array_of_tables_paths st)\<rparr>;
             arr = fst (make_shared_Array st1); st2 = snd (make_shared_Array st1);
             new_table = fst (make_shared_Table st2); st3 = snd (make_shared_Table st2);
             st4 = append_to arr (TablePtr new_table) st3;
             st5 = set_in t last_key (ArrayPtr arr) st4
         in (Some new_table, st5))
      else
        (case value_at st t last_key of
           ArrayPtr arr \<Rightarrow>
             if path \<notin> array_of_tables_paths st
             then (None, set_error (already_defined last_key ''non-array-of-tables'') st)
             else if \<not> list_all holds_TablePtr (arrays st ! arr)
             then (None, set_error (already_defined last_key ''non-array-of-tables'') st)
             else (let new_table = fst (make_shared_Table st); st1 = snd (make_shared_Table st)
                   in (Some new_table, append_to arr (TablePtr new_table) st1))
         | _ \<Rightarrow> (None, set_error (already_defined last_key ''non-array'') st)))"

definition get_or_create_array_append_table ::
  "string list \<Rightarrow> parser \<Rightarrow> nat option \<times> parser" where
  "get_or_create_array_append_table path st =
     (if path = [] then (None, set_error ''Empty array of tables path'' st)
      else (case array_append_prefix_loop path 0 (root_table st) st of
              (None, st') \<Rightarrow> (None, st')
            | (Some t, st') \<Rightarrow> array_append_last path t st'))"

text \<open>The loop of \<^verbatim>\<open>set_value_at_path\<close>; \<open>None\<close> is its \<^verbatim>\<open>return\<close> after an error.\<close>

function set_value_prefix_loop ::
  "string list \<Rightarrow> nat \<Rightarrow> nat \<Rightarrow> parser \<Rightarrow> nat option \<times> parser" where
  "set_value_prefix_loop path i t st =
     (if i + 1 < length path then
        (let key = path ! i in
         if has (tables st ! t) key then
           (case value_at st t key of
              TablePtr t' \<Rightarrow> set_value_prefix_loop path (i + 1) t' st
            | _ \<Rightarrow> (None, set_error (already_defined key ''non-table'') st))
         else
           (let new_table = fst (make_shared_Table st); st1 = snd (make_shared_Table st)
            in set_value_prefix_loop path (i + 1) new_table
                 (set_in t key (TablePtr new_table) st1)))
      else (Some t, st))"
  by pat_completeness auto
termination
  by (relation "measure (\<lambda>(path, i, t, st). length path - i)") auto

definition set_value_at_path :: "nat \<Rightarrow> string list \<Rightarrow> toml_value \<Rightarrow> parser \<Rightarrow> parser" where
  "set_value_at_path table path v st =
     (if path = [] then st
      else (case set_value_prefix_loop path 0 table st of
              (None, st') \<Rightarrow> st'
            | (Some t, st') \<Rightarrow> set_in t (last path) v st'))"

declare get_or_create_table_at_path_loop.simps [simp del]
declare array_append_prefix_loop.simps [simp del]
declare set_value_prefix_loop.simps [simp del]

subsection \<open>Results of functions that may throw\<close>

text \<open>
  \<open>Returns v st\<close>: the function returns \<open>v\<close> and leaves the parser in \<open>st\<close>.
  \<open>Throws what st\<close>: a \<^verbatim>\<open>std::exception\<close> with message \<open>what\<close> leaves the function while the
  parser is in \<open>st\<close>. \<open>OutOfFuel\<close> belongs to the model only: the recursive-descent
  functions below carry a recursion bound, and this is their value when it is used up.
\<close>

datatype 'a outcome = Returns 'a parser | Throws string parser | OutOfFuel

text \<open>
  \<^verbatim>\<open>std::stod\<close> is a parameter of the model: \<open>stod s\<close> is \<open>None\<close> when the call throws
  (no conversion, or a result out of range) and the \<^verbatim>\<open>double\<close> it returns otherwise.
\<close>

type_synonym stod_fn = "string \<Rightarrow> double option"

subsection \<open>\<^verbatim>\<open>std::stoll\<close>\<close>

text \<open>
  The value of a digit in \<^verbatim>\<open>strtoll\<close>'s alphabet, if it is one of the base.
\<close>

definition digit_in_base :: "nat \<Rightarrow> char \<Rightarrow> nat option" where
  "digit_in_base base c =
     (let u = (of_char c :: nat);
          d = (if 48 \<le> u \<and> u \<le> 57 then Some (u - 48)
               else if 97 \<le> u \<and> u \<le> 122 then Some (u - 97 + 10)
               else if 65 \<le> u \<and> u \<le> 90 then Some (u - 65 + 10)
               else None)
      in case d of None \<Rightarrow> None | Some v \<Rightarrow> if v < base then Some v else None)"

definition isspace :: "char \<Rightarrow> bool" where
  "isspace c = (c = CHR '' '' \<or> (9 \<le> (of_char c :: nat) \<and> (of_char c :: nat) \<le> 13))"

text \<open>
  \<^verbatim>\<open>std::stoll(s, nullptr, base)\<close>: leading white space, an optional sign, then the longest
  run of digits of the base. \<open>None\<close> when it throws: \<^verbatim>\<open>std::invalid_argument\<close> without a
  digit, \<^verbatim>\<open>std::out_of_range\<close> outside \<^verbatim>\<open>long long\<close>. (The \<^verbatim>\<open>0x\<close> prefix that base 16
  would accept cannot occur: the parser passes hexadecimal digits only.)
\<close>

definition stoll :: "string \<Rightarrow> nat \<Rightarrow> int option" where
  "stoll s base =
     (let s1 = dropWhile isspace s;
          neg = (s1 \<noteq> [] \<and> hd s1 = CHR ''-'');
          s2 = (if s1 \<noteq> [] \<and> (hd s1 = CHR ''-'' \<or> hd s1 = CHR ''+'') then tl s1 else s1);
          ds = takeWhile (\<lambda>c. digit_in_base base c \<noteq> None) s2;
          v = foldl (\<lambda>n c. n * int base + int (the (digit_in_base base c))) 0 ds;
          r = (if neg then - v else v)
      in if ds = [] then None
         else if r < - (2 ^ 63) \<or> r > 2 ^ 63 - 1 then None
         else Some r)"

subsection \<open>Dates and times\<close>

definition slice :: "string \<Rightarrow> nat \<Rightarrow> nat \<Rightarrow> string" where
  "slice buf a b = take (b - a) (drop a buf)"

text \<open>The loop of the static function \<^verbatim>\<open>parse_int\<close>: pointer, digit count, value.\<close>

function parse_int_loop :: "string \<Rightarrow> nat \<Rightarrow> nat \<Rightarrow> nat \<Rightarrow> nat \<Rightarrow> int \<Rightarrow> nat \<times> nat \<times> int" where
  "parse_int_loop buf ptr end max_digits n v =
     (if ptr < end \<and> n < max_digits \<and> isdigit (buf ! ptr)
      then parse_int_loop buf (ptr + 1) end max_digits (n + 1)
             (v * 10 + (of_char (buf ! ptr) - of_char (CHR ''0'')))
      else (ptr, n, v))"
  by pat_completeness auto
termination
  by (relation "measure (\<lambda>(buf, ptr, end, max_digits, n, v). end - ptr)") auto

declare parse_int_loop.simps [simp del]

text \<open>
  \<^verbatim>\<open>parse_int(ptr, end, min_digits, max_digits, out)\<close>: \<open>None\<close> for \<^verbatim>\<open>false\<close>, otherwise the
  advanced pointer and \<^verbatim>\<open>out\<close>. (After \<^verbatim>\<open>false\<close> no caller reads the pointer again.)
\<close>

definition parse_int :: "string \<Rightarrow> nat \<Rightarrow> nat \<Rightarrow> nat \<Rightarrow> nat \<Rightarrow> (nat \<times> int) option" where
  "parse_int buf ptr end min_digits max_digits =
     (if ptr \<ge> end \<or> \<not> isdigit (buf ! ptr) then None
      else (case parse_int_loop buf ptr end max_digits 0 0 of
              (p, n, v) \<Rightarrow> if n < min_digits then None else Some (p, v)))"

definition is_value_terminator :: "char \<Rightarrow> bool" where
  "is_value_terminator c =
     (c = CHR '' '' \<or> c = CHR 0x09 \<or> c = CHR 0x0A \<or> c = CHR 0x0D \<or> c = CHR '','' \<or> c = CHR '']''
      \<or> c = CHR ''}'' \<or> c = CHR ''#'')"

definition days_in_month :: "int list" where
  "days_in_month = [31, 28, 31, 30, 31, 30, 31, 31, 30, 31, 30, 31]"

definition leap_year :: "int \<Rightarrow> bool" where
  "leap_year y = (y mod 4 = 0 \<and> (y mod 100 \<noteq> 0 \<or> y mod 400 = 0))"

definition max_day_in_month :: "int \<Rightarrow> int \<Rightarrow> int" where
  "max_day_in_month year month =
     (if month = 2 \<and> leap_year year then 29 else days_in_month ! nat (month - 1))"

function days_from_1970_years :: "int \<Rightarrow> int \<Rightarrow> int \<Rightarrow> int" where
  "days_from_1970_years yy y days =
     (if yy < y then days_from_1970_years (yy + 1) y (days + (if leap_year yy then 366 else 365))
      else days)"
  by pat_completeness auto
termination
  by (relation "measure (\<lambda>(yy, y, days). nat (y - yy))") auto

declare days_from_1970_years.simps [simp del]

definition days_from_1970 :: "int \<Rightarrow> int \<Rightarrow> int \<Rightarrow> int" where
  "days_from_1970 y m d =
     (let days = days_from_1970_years 1970 y 0;
          days = days + sum_list (take (nat (m - 1)) days_in_month);
          days = (if m > 2 \<and> leap_year y then days + 1 else days)
      in days + (d - 1))"

text \<open>
  \<^verbatim>\<open>tm_to_time_t_utc\<close> on the fields the caller fills in (\<^verbatim>\<open>tm_year + 1900\<close> is the year,
  \<^verbatim>\<open>tm_mon + 1\<close> the month).
\<close>

definition tm_to_time_t_utc :: "int \<Rightarrow> int \<Rightarrow> int \<Rightarrow> int \<Rightarrow> int \<Rightarrow> int \<Rightarrow> int" where
  "tm_to_time_t_utc year month day hour minute second =
     days_from_1970 year month day * 86400 + hour * 3600 + minute * 60 + second"

text \<open>\<^verbatim>\<open>while (p < end_ && std::isdigit(*p)) ++p;\<close>\<close>

function skip_digits :: "string \<Rightarrow> nat \<Rightarrow> nat \<Rightarrow> nat" where
  "skip_digits buf p end = (if p < end \<and> isdigit (buf ! p) then skip_digits buf (p + 1) end else p)"
  by pat_completeness auto
termination
  by (relation "measure (\<lambda>(buf, p, end). end - p)") auto

declare skip_digits.simps [simp del]

text \<open>
  \<^verbatim>\<open>!parse_int(p, end_, 2, 2, x) || x < lo || x > hi\<close> is \<open>None\<close> here, and likewise with
  the upper bound alone.
\<close>

definition parse_int_between :: "string \<Rightarrow> nat \<Rightarrow> nat \<Rightarrow> int \<Rightarrow> int \<Rightarrow> (nat \<times> int) option" where
  "parse_int_between buf p end lo hi =
     (case parse_int buf p end 2 2 of
        None \<Rightarrow> None
      | Some (p', x) \<Rightarrow> if x < lo \<or> x > hi then None else Some (p', x))"

definition parse_int_upto :: "string \<Rightarrow> nat \<Rightarrow> nat \<Rightarrow> int \<Rightarrow> (nat \<times> int) option" where
  "parse_int_upto buf p end hi =
     (case parse_int buf p end 2 2 of
        None \<Rightarrow> None
      | Some (p', x) \<Rightarrow> if x > hi then None else Some (p', x))"

text \<open>
  \<^verbatim>\<open>current_ = start; return std::nullopt;\<close>, with and without a \<^verbatim>\<open>set_error\<close> before it.
\<close>

definition not_a_datetime :: "nat \<Rightarrow> parser \<Rightarrow> toml_value option outcome" where
  "not_a_datetime start st = Returns None (st\<lparr>current := start\<rparr>)"

definition datetime_error :: "string \<Rightarrow> nat \<Rightarrow> parser \<Rightarrow> toml_value option outcome" where
  "datetime_error message start st = Returns None ((set_error message st)\<lparr>current := start\<rparr>)"

text \<open>\<^verbatim>\<open>current_ = p; return TomlValue(v);\<close>\<close>

definition datetime_value :: "toml_value \<Rightarrow> nat \<Rightarrow> parser \<Rightarrow> toml_value option outcome" where
  "datetime_value v p st = Returns (Some v) (st\<lparr>current := p\<rparr>)"

text \<open>
  The offset clause of \<^verbatim>\<open>try_parse_datetime\<close> at \<open>p\<close>: \<open>None\<close> for its error exit,
  otherwise the new \<open>p\<close>, \<^verbatim>\<open>offset_minutes\<close> and \<^verbatim>\<open>has_offset\<close>.
\<close>

definition parse_offset :: "string \<Rightarrow> nat \<Rightarrow> nat \<Rightarrow> (nat \<times> int \<times> bool) option" where
  "parse_offset buf p end =
     (if p < end \<and> (buf ! p = CHR ''Z'' \<or> buf ! p = CHR ''z'') then Some (p + 1, 0, True)
      else if p + 1 < end \<and> (buf ! p = CHR ''+'' \<or> buf ! p = CHR ''-'') then
        (case parse_int_upto buf (p + 1) end 23 of
           None \<Rightarrow> None
         | Some (p1, oh) \<Rightarrow>
             if p1 < end \<and> buf ! p1 = CHR '':'' then
               (case parse_int_upto buf (p1 + 1) end 59 of
                  None \<Rightarrow> None
                | Some (p2, om) \<Rightarrow>
                    Some (p2, (oh * 60 + om) * (if buf ! p = CHR ''-'' then - 1 else 1), True))
             else None)
      else Some (p, 0, False))"

text \<open>
  The fractional-seconds clause at \<open>p\<close>: \<open>Inl\<close> for its error exit, \<open>Inr\<close> with the new
  \<open>p\<close> and the text handed to \<^verbatim>\<open>std::stod\<close> (\<open>None\<close> when there is no fraction and
  \<^verbatim>\<open>subsecond\<close> stays \<^verbatim>\<open>0.0\<close>).
\<close>

definition parse_fraction :: "string \<Rightarrow> nat \<Rightarrow> nat \<Rightarrow> unit + nat \<times> string option" where
  "parse_fraction buf p end =
     (if p < end \<and> buf ! p = CHR ''.'' then
        (let p1 = skip_digits buf (p + 1) end
         in if p1 = p + 1 then Inl () else Inr (p1, Some (''0.'' @ slice buf (p + 1) p1)))
      else Inr (p, None))"

text \<open>
  The block \<^verbatim>\<open>if (end_ - p >= 8) { ... }\<close> of the date branch: the time of day behind a
  date, with \<open>p\<close> on the hour.
\<close>

definition try_parse_datetime_time ::
  "stod_fn \<Rightarrow> nat \<Rightarrow> int \<Rightarrow> int \<Rightarrow> int \<Rightarrow> nat \<Rightarrow> parser \<Rightarrow> toml_value option outcome" where
  "try_parse_datetime_time stod start year month day p st =
     (let buf = input st; e = endp st in
      case parse_int_upto buf p e 23 of
        None \<Rightarrow> datetime_error ''Invalid datetime: hour must be 00-23'' start st
      | Some (p1, hour) \<Rightarrow>
      if p1 \<ge> e \<or> buf ! p1 \<noteq> CHR '':'' then not_a_datetime start st else
      case parse_int_upto buf (p1 + 1) e 59 of
        None \<Rightarrow> datetime_error ''Invalid datetime: minute must be 00-59'' start st
      | Some (p2, minute) \<Rightarrow>
      if p2 \<ge> e \<or> buf ! p2 \<noteq> CHR '':'' then not_a_datetime start st else
      case parse_int_upto buf (p2 + 1) e 60 of
        None \<Rightarrow> datetime_error ''Invalid datetime: second must be 00-60'' start st
      | Some (p3, second) \<Rightarrow>
      case parse_fraction buf p3 e of
        Inl _ \<Rightarrow> datetime_error
                  ''Invalid datetime: fractional seconds must have at least one digit'' start st
      | Inr (p4, frac) \<Rightarrow>
      case (case frac of None \<Rightarrow> Some Zero | Some text \<Rightarrow> stod text) of
        None \<Rightarrow> Throws ''stod'' st
      | Some subsecond \<Rightarrow>
      case parse_offset buf p4 e of
        None \<Rightarrow> datetime_error
                  (''Invalid datetime: offset must be Z or '' @ [CHR 0xC2, CHR 0xB1] @ ''HH:MM'')
                  start st
      | Some (p5, offset_minutes, has_offset) \<Rightarrow>
      let t = tm_to_time_t_utc year month day hour minute second in
      if t < 0 then not_a_datetime start st
      else if has_offset then
        (if year < 1970 \<or> year > 2037 then
           (let raw = slice buf start p5;
                raw = (if length raw \<ge> 19 \<and> raw ! 10 = CHR '' '' then raw[10 := CHR ''T''] else raw)
            in datetime_value (String raw) p5 st)
         else datetime_value
                (DateTimeOffset (TimePoint (t - 60 * offset_minutes) subsecond) offset_minutes) p5 st)
      else if p5 < e \<and> \<not> is_value_terminator (buf ! p5)
      then datetime_error ''Invalid datetime: unexpected character after time'' start st
      else datetime_value (String (slice buf start p5)) p5 st)"

text \<open>The first branch of \<^verbatim>\<open>try_parse_datetime\<close>, entered on \<^verbatim>\<open>YYYY-MM-DD\<close>.\<close>

definition try_parse_datetime_date :: "stod_fn \<Rightarrow> parser \<Rightarrow> toml_value option outcome" where
  "try_parse_datetime_date stod st =
     (let buf = input st; e = endp st; start = current st in
      case parse_int buf start e 4 4 of
        None \<Rightarrow> not_a_datetime start st
      | Some (p1, year) \<Rightarrow>
      if p1 \<ge> e \<or> buf ! p1 \<noteq> CHR ''-'' then not_a_datetime start st else
      case parse_int_between buf (p1 + 1) e 1 12 of
        None \<Rightarrow> datetime_error ''Invalid date: month must be 01-12'' start st
      | Some (p2, month) \<Rightarrow>
      if p2 \<ge> e \<or> buf ! p2 \<noteq> CHR ''-'' then not_a_datetime start st else
      case parse_int_between buf (p2 + 1) e 1 31 of
        None \<Rightarrow> datetime_error ''Invalid date: day must be 01-31'' start st
      | Some (p, day) \<Rightarrow>
      if day > max_day_in_month year month
      then datetime_error ''Invalid date: day out of range for month'' start st
      else if p = e then datetime_value (String (slice buf start p)) p st
      else if buf ! p = CHR '' '' then
        (if int e - int p < 9 then datetime_value (String (slice buf start p)) p st
         else if \<not> (int e - int (p + 1) \<ge> 8 \<and> isdigit (buf ! (p + 1)) \<and> isdigit (buf ! (p + 2))
                    \<and> buf ! (p + 3) = CHR '':'' \<and> isdigit (buf ! (p + 4)) \<and> isdigit (buf ! (p + 5))
                    \<and> buf ! (p + 6) = CHR '':'' \<and> isdigit (buf ! (p + 7)) \<and> isdigit (buf ! (p + 8)))
         then datetime_value (String (slice buf start p)) p st
         else if int e - int (p + 1) \<ge> 8
         then try_parse_datetime_time stod start year month day (p + 1) st
         else if p + 1 < e \<and> \<not> is_value_terminator (buf ! (p + 1))
         then datetime_error ''Invalid date: unexpected character after date'' start st
         else datetime_value (String (slice buf start (p + 1))) (p + 1) st)
      else if buf ! p = CHR ''T'' \<or> buf ! p = CHR ''t'' then
        (if int e - int (p + 1) \<ge> 8
         then try_parse_datetime_time stod start year month day (p + 1) st
         else if p + 1 < e \<and> \<not> is_value_terminator (buf ! (p + 1))
         then datetime_error ''Invalid date: unexpected character after date'' start st
         else datetime_value (String (slice buf start (p + 1))) (p + 1) st)
      else if p < e \<and> \<not> is_value_terminator (buf ! p)
      then datetime_error ''Invalid date: unexpected character after date'' start st
      else datetime_value (String (slice buf start (start + 10))) p st)"

text \<open>The second branch, entered on \<^verbatim>\<open>HH:MM:SS\<close>.\<close>

definition try_parse_datetime_time_only :: "parser \<Rightarrow> toml_value option outcome" where
  "try_parse_datetime_time_only st =
     (let buf = input st; e = endp st; start = current st in
      case parse_int_upto buf start e 23 of
        None \<Rightarrow> datetime_error ''Invalid time: hour must be 00-23'' start st
      | Some (p1, h) \<Rightarrow>
      if p1 \<ge> e \<or> buf ! p1 \<noteq> CHR '':'' then not_a_datetime start st else
      case parse_int_upto buf (p1 + 1) e 59 of
        None \<Rightarrow> datetime_error ''Invalid time: minute must be 00-59'' start st
      | Some (p2, m) \<Rightarrow>
      if p2 \<ge> e \<or> buf ! p2 \<noteq> CHR '':'' then not_a_datetime start st else
      case parse_int_upto buf (p2 + 1) e 60 of
        None \<Rightarrow> datetime_error ''Invalid time: second must be 00-60'' start st
      | Some (p3, s) \<Rightarrow>
      let p = (if p3 < e \<and> buf ! p3 = CHR ''.'' then skip_digits buf (p3 + 1) e else p3) in
      if p < e \<and> \<not> is_value_terminator (buf ! p)
      then datetime_error ''Invalid time: unexpected character after time'' start st
      else datetime_value (String (slice buf start p)) p st)"

definition try_parse_datetime :: "stod_fn \<Rightarrow> parser \<Rightarrow> toml_value option outcome" where
  "try_parse_datetime stod st =
     (if int (endp st) - int (current st) \<ge> 10
         \<and> isdigit (at st 0) \<and> isdigit (at st 1) \<and> isdigit (at st 2) \<and> isdigit (at st 3)
         \<and> at st 4 = CHR ''-'' \<and> isdigit (at st 5) \<and> isdigit (at st 6)
         \<and> at st 7 = CHR ''-'' \<and> isdigit (at st 8) \<and> isdigit (at st 9)
      then try_parse_datetime_date stod st
      else if int (endp st) - int (current st) \<ge> 8
         \<and> isdigit (at st 0) \<and> isdigit (at st 1) \<and> at st 2 = CHR '':''
         \<and> isdigit (at st 3) \<and> isdigit (at st 4) \<and> at st 5 = CHR '':''
         \<and> isdigit (at st 6) \<and> isdigit (at st 7)
      then try_parse_datetime_time_only st
      else Returns None st)"

subsection \<open>Numbers and booleans\<close>

definition parse_boolean :: "parser \<Rightarrow> bool \<times> parser" where
  "parse_boolean st =
     (if peek st = CHR ''t''
      then (True, expect_char (CHR ''e'') (expect_char (CHR ''u'') (expect_char (CHR ''r'')
                    (expect_char (CHR ''t'') st))))
      else (False, expect_char (CHR ''e'') (expect_char (CHR ''s'') (expect_char (CHR ''l'')
                     (expect_char (CHR ''a'') (expect_char (CHR ''f'') st))))))"

text \<open>The three digit tests of the prefixed-integer branch.\<close>

definition is_hex :: "char \<Rightarrow> bool" where
  "is_hex ch = (isdigit ch \<or> (97 \<le> (of_char ch :: nat) \<and> (of_char ch :: nat) \<le> 102)
                \<or> (65 \<le> (of_char ch :: nat) \<and> (of_char ch :: nat) \<le> 70))"

definition is_oct :: "char \<Rightarrow> bool" where
  "is_oct ch = (48 \<le> (of_char ch :: nat) \<and> (of_char ch :: nat) \<le> 55)"

definition is_bin :: "char \<Rightarrow> bool" where
  "is_bin ch = (ch = CHR ''0'' \<or> ch = CHR ''1'')"

text \<open>
  The loop that collects the digits of a prefixed integer into \<^verbatim>\<open>num_clean\<close>: an
  underscore is consumed and dropped wherever it stands.
\<close>

function prefixed_digits_loop :: "nat \<Rightarrow> parser \<Rightarrow> string \<Rightarrow> string \<times> parser" where
  "prefixed_digits_loop base st num_clean =
     (if \<not> eof st \<and> (peek st = CHR ''_'' \<or> (base = 16 \<and> is_hex (peek st))
                       \<or> (base = 8 \<and> is_oct (peek st)) \<or> (base = 2 \<and> is_bin (peek st)))
      then (if peek st \<noteq> CHR ''_''
            then prefixed_digits_loop base (snd (advance st)) (num_clean @ [fst (advance st)])
            else prefixed_digits_loop base (snd (advance st)) num_clean)
      else (num_clean, st))"
  by pat_completeness auto
termination
  by (relation "measure (\<lambda>(base, st, num_clean). endp st - current st)")
     (auto intro: forward_after_advance)

declare prefixed_digits_loop.simps [simp del]

text \<open>
  The prefixed-integer block, entered with \<^verbatim>\<open>base != 0\<close>; \<open>start\<close> is the position of the
  first byte of the value.
\<close>

definition parse_prefixed_integer :: "nat \<Rightarrow> nat \<Rightarrow> parser \<Rightarrow> toml_value \<times> parser" where
  "parse_prefixed_integer base start st =
     (let r = prefixed_digits_loop base (st\<lparr>current := current st + 2\<rparr>) [];
          num_clean = fst r; st1 = snd r
      in if num_clean = [] then (Integer 0, set_error ''Invalid integer literal'' st1)
         else (case stoll num_clean base of
                 Some v \<Rightarrow>
                   (Integer (if start < endp st1 \<and> input st1 ! start = CHR ''-'' then - v else v), st1)
               | None \<Rightarrow>
                   (Integer 0,
                    set_error (''Invalid integer: '' @ slice (input st1) start (current st1)) st1)))"

text \<open>
  The \<^verbatim>\<open>while\<close> loop over a decimal token with the flags \<^verbatim>\<open>has_dot\<close> and \<^verbatim>\<open>has_exp\<close>;
  \<open>Inl\<close> is the \<^verbatim>\<open>return\<close> on a second dot.
\<close>

function number_loop :: "parser \<Rightarrow> bool \<Rightarrow> bool \<Rightarrow> (unit + bool \<times> bool) \<times> parser" where
  "number_loop st has_dot has_exp =
     (if \<not> eof st \<and> (isdigit (peek st) \<or> peek st = CHR ''.'' \<or> peek st = CHR ''e''
                       \<or> peek st = CHR ''E'' \<or> peek st = CHR ''+'' \<or> peek st = CHR ''-''
                       \<or> peek st = CHR ''_'')
      then (if peek st = CHR ''.'' \<and> has_dot
            then (Inl (), set_error ''Double dot not allowed in float'' st)
            else number_loop (snd (advance st)) (has_dot \<or> peek st = CHR ''.'')
                   (has_exp \<or> peek st = CHR ''e'' \<or> peek st = CHR ''E''))
      else (Inr (has_dot, has_exp), st))"
  by pat_completeness auto
termination
  by (relation "measure (\<lambda>(st, has_dot, has_exp). endp st - current st)")
     (auto intro: forward_after_advance)

declare number_loop.simps [simp del]

text \<open>\<^verbatim>\<open>inf\<close> or \<^verbatim>\<open>nan\<close> (the three bytes \<open>w\<close>) at the cursor, not followed by a name byte.\<close>

definition special_float_at :: "string \<Rightarrow> parser \<Rightarrow> bool" where
  "special_float_at w st =
     (int (endp st) - int (current st) \<ge> 3 \<and> at st 0 = w ! 0 \<and> at st 1 = w ! 1 \<and> at st 2 = w ! 2
      \<and> (current st + 3 \<ge> endp st \<or> \<not> (isalnum (at st 3) \<or> at st 3 = CHR ''_'')))"

text \<open>
  The base a prefixed integer at the cursor announces (\<^verbatim>\<open>0x\<close>, \<^verbatim>\<open>0o\<close>, \<^verbatim>\<open>0b\<close>, in either
  case), or 0: the variable \<^verbatim>\<open>base\<close> of the source, which stays 0 as well when the outer
  test on \<^verbatim>\<open>*current_ == '0'\<close> fails.
\<close>

definition prefix_base :: "parser \<Rightarrow> nat" where
  "prefix_base st =
     (if current st < endp st \<and> input st ! current st = CHR ''0'' \<and> current st + 2 \<le> endp st
      then (if at st 1 = CHR ''x'' \<or> at st 1 = CHR ''X'' then 16
            else if at st 1 = CHR ''o'' \<or> at st 1 = CHR ''O'' then 8
            else if at st 1 = CHR ''b'' \<or> at st 1 = CHR ''B'' then 2
            else 0)
      else 0)"

text \<open>
  The end of the number branch, behind its \<^verbatim>\<open>while\<close> loop: \<^verbatim>\<open>num_str\<close>, \<^verbatim>\<open>num_clean\<close> and
  the conversion.
\<close>

definition convert_number :: "stod_fn \<Rightarrow> nat \<Rightarrow> bool \<Rightarrow> bool \<Rightarrow> parser \<Rightarrow> toml_value \<times> parser" where
  "convert_number stod start has_dot has_exp st =
     (let num_str = slice (input st) start (current st);
          num_clean = filter (\<lambda>ch. ch \<noteq> CHR ''_'') num_str
      in if has_dot \<and> \<not> has_exp \<and> num_str \<noteq> [] \<and> last num_str = CHR ''.''
         then (Float Zero, set_error ''Trailing dot not allowed in float'' st)
         else if has_dot \<or> has_exp then
           (case stod num_clean of
              Some d \<Rightarrow> (Float d, st)
            | None \<Rightarrow> (Float Zero, set_error (''Invalid float: '' @ num_str) st))
         else
           (case stoll num_clean 10 of
              Some v \<Rightarrow> (Integer v, st)
            | None \<Rightarrow> (Integer 0, set_error (''Invalid integer: '' @ num_str) st)))"

text \<open>
  The decimal part of the number branch, from the leading-dot test on; \<open>start\<close> is the
  position of the first byte of the value.
\<close>

definition parse_decimal :: "stod_fn \<Rightarrow> nat \<Rightarrow> parser \<Rightarrow> toml_value \<times> parser" where
  "parse_decimal stod start st =
     (if current st = start \<and> peek st = CHR ''.''
      then (Float Zero, set_error ''Leading dot not allowed in number'' st)
      else if current st = start \<and> peek st = CHR ''0'' \<and> current st + 1 < endp st
              \<and> isdigit (at st 1)
      then (Integer 0, set_error ''Leading zero not allowed in decimal integer'' st)
      else (case number_loop st False False of
              (Inl _, st2) \<Rightarrow> (Float Zero, st2)
            | (Inr (has_dot, has_exp), st2) \<Rightarrow> convert_number stod start has_dot has_exp st2))"

text \<open>
  The number branch of \<^verbatim>\<open>parse_value\<close> from \<^verbatim>\<open>const char* start = current_;\<close> on; \<open>c\<close> is
  the first byte of the value.
\<close>

definition parse_number :: "stod_fn \<Rightarrow> char \<Rightarrow> parser \<Rightarrow> toml_value \<times> parser" where
  "parse_number stod c st =
     (let start = current st;
          signed = (c = CHR ''+'' \<or> c = CHR ''-'');
          st1 = (if signed then snd (advance st) else st)
      in if signed \<and> \<not> eof st1 \<and> peek st1 = CHR ''i'' \<and> special_float_at ''inf'' st1
         then (Float (if input st ! start = CHR ''-'' then NegInfinity else Infinity),
               st1\<lparr>current := current st1 + 3\<rparr>)
         else if signed \<and> \<not> eof st1 \<and> peek st1 = CHR ''n'' \<and> special_float_at ''nan'' st1
         then (Float (if input st ! start = CHR ''-'' then NegQuietNaN else QuietNaN),
               st1\<lparr>current := current st1 + 3\<rparr>)
         else if prefix_base st1 \<noteq> 0 then parse_prefixed_integer (prefix_base st1) start st1
         else parse_decimal stod start st1)"

text \<open>
  The two guarded \<^verbatim>\<open>try_parse_datetime\<close> attempts at the head of the number branch, then
  the number itself.
\<close>

definition looks_like_date :: "char \<Rightarrow> parser \<Rightarrow> bool" where
  "looks_like_date c st =
     (isdigit c \<and> int (endp st) - int (current st) \<ge> 10 \<and> isdigit (at st 0) \<and> isdigit (at st 1)
      \<and> isdigit (at st 2) \<and> isdigit (at st 3) \<and> at st 4 = CHR ''-'')"

definition looks_like_time :: "char \<Rightarrow> parser \<Rightarrow> bool" where
  "looks_like_time c st =
     (isdigit c \<and> int (endp st) - int (current st) \<ge> 8 \<and> isdigit (at st 0) \<and> isdigit (at st 1)
      \<and> at st 2 = CHR '':'')"

definition parse_value_number :: "stod_fn \<Rightarrow> char \<Rightarrow> parser \<Rightarrow> toml_value outcome" where
  "parse_value_number stod c st =
     (case (if looks_like_date c st then try_parse_datetime stod st else Returns None st) of
        Throws what s \<Rightarrow> Throws what s
      | OutOfFuel \<Rightarrow> OutOfFuel
      | Returns (Some dt) s \<Rightarrow> Returns dt s
      | Returns None s1 \<Rightarrow>
          if looks_like_date c st \<and> has_error s1 then Returns (Integer 0) s1
          else
            (case (if looks_like_time c s1 then try_parse_datetime stod s1 else Returns None s1) of
               Throws what s \<Rightarrow> Throws what s
             | OutOfFuel \<Rightarrow> OutOfFuel
             | Returns (Some dt) s \<Rightarrow> Returns dt s
             | Returns None s2 \<Rightarrow>
                 if looks_like_time c s1 \<and> has_error s2 then Returns (Integer 0) s2
                 else (case parse_number stod c s2 of (v, s3) \<Rightarrow> Returns v s3)))"

subsection \<open>Keys\<close>

function bare_key_loop :: "parser \<Rightarrow> string \<Rightarrow> string \<times> parser" where
  "bare_key_loop st key =
     (if \<not> eof st \<and> (isalnum (peek st) \<or> peek st = CHR ''_'' \<or> peek st = CHR ''-'')
      then bare_key_loop (snd (advance st)) (key @ [fst (advance st)])
      else (key, st))"
  by pat_completeness auto
termination
  by (relation "measure (\<lambda>(st, key). endp st - current st)")
     (auto intro: forward_after_advance)

declare bare_key_loop.simps [simp del]

text \<open>Three equal quote bytes \<open>q\<close> at the cursor: the test that opens a multiline string.\<close>

definition triple_quote_at :: "char \<Rightarrow> parser \<Rightarrow> bool" where
  "triple_quote_at q st = (current st + 2 < endp st \<and> at st 1 = q \<and> at st 2 = q)"

definition parse_key :: "parser \<Rightarrow> string \<times> parser" where
  "parse_key st0 =
     (let st = skip_whitespace_no_nl st0 in
      if peek st = CHR 0x22 then
        (if triple_quote_at (CHR 0x22) st
         then parse_multiline_basic_string (st\<lparr>current := current st + 3\<rparr>)
         else parse_basic_string st)
      else if peek st = CHR 0x27 then
        (if triple_quote_at (CHR 0x27) st
         then parse_multiline_literal_string (st\<lparr>current := current st + 3\<rparr>)
         else parse_literal_string st)
      else
        (let r = bare_key_loop st []; key = fst r; st1 = snd r
         in if key = []
            then (key, (let st2 = set_error ''Expected key'' st1
                        in if \<not> eof st2 then snd (advance st2) else st2))
            else (key, st1)))"

text \<open>
  The \<^verbatim>\<open>while\<close> loop of \<^verbatim>\<open>parse_dotted_key\<close>, bounded by \<open>fuel\<close> iterations.
\<close>

fun parse_dotted_key_loop :: "nat \<Rightarrow> parser \<Rightarrow> string list \<Rightarrow> string list outcome" where
  "parse_dotted_key_loop 0 st path = OutOfFuel"
| "parse_dotted_key_loop (Suc fuel) st path =
     (if \<not> eof st \<and> peek st = CHR ''.''
      then (let st1 = skip_whitespace_no_nl (snd (advance st));
                r = parse_key st1
            in parse_dotted_key_loop fuel (skip_whitespace_no_nl (snd r)) (path @ [fst r]))
      else Returns path st)"

definition parse_dotted_key :: "nat \<Rightarrow> parser \<Rightarrow> string list outcome" where
  "parse_dotted_key fuel st =
     (let r = parse_key st
      in parse_dotted_key_loop fuel (skip_whitespace_no_nl (snd r)) [fst r])"

subsection \<open>Values, arrays and inline tables\<close>

lemma skip_comment_moves:
  assumes "peek st = CHR ''#''"
  shows "endp (skip_comment st) - current (skip_comment st) < endp st - current st"
proof -
  have ne: "\<not> eof st" using assms by (auto simp: peek_def)
  have "skip_comment st = skip_comment_loop (snd (advance st))"
    using assms ne by (simp add: skip_comment_def) (subst skip_comment_loop.simps, simp)
  then show ?thesis
    using forward_after_advance [OF ne forward_skip_comment_loop [of "snd (advance st)"]] by simp
qed

text \<open>
  The \<^verbatim>\<open>for (;;)\<close> loop at the head of each round of \<^verbatim>\<open>parse_array\<close>: \<open>True\<close> when it
  leaves by \<^verbatim>\<open>goto end_array_loop\<close>, \<open>False\<close> when by \<^verbatim>\<open>break\<close>.
\<close>

function array_skip_loop :: "parser \<Rightarrow> bool \<times> parser" where
  "array_skip_loop st0 =
     (let st = skip_whitespace st0 in
      if peek st = CHR '']'' then (True, st)
      else if peek st = CHR ''#'' then array_skip_loop (skip_comment st)
      else (False, st))"
  by pat_completeness auto
termination
proof (relation "measure (\<lambda>st. endp st - current st)")
  show "wf (measure (\<lambda>st. endp st - current st))" by simp
next
  fix st0 st
  assume a: "st = skip_whitespace st0" "peek st \<noteq> CHR '']''" "peek st = CHR ''#''"
  have "endp (skip_comment st) - current (skip_comment st) < endp st - current st"
    using a(3) by (rule skip_comment_moves)
  moreover have "endp st - current st \<le> endp st0 - current st0"
    unfolding a(1) using forward_skip_whitespace by (rule forward_measure)
  ultimately show "(skip_comment st, st0) \<in> measure (\<lambda>st. endp st - current st)" by simp
qed

declare array_skip_loop.simps [simp del]

text \<open>
  \<^verbatim>\<open>parse_value\<close>, \<^verbatim>\<open>parse_array\<close> and \<^verbatim>\<open>parse_inline_table\<close> call each other; the first
  argument bounds the depth of calls and loop rounds still allowed. \<open>parse_array_loop\<close> and
  \<open>parse_inline_table_loop\<close> are the \<^verbatim>\<open>while (!eof())\<close> loops of the two functions, each
  returning the parser as it is when the loop is left; the array (table) under
  construction is passed by address.
\<close>

fun parse_value :: "nat \<Rightarrow> stod_fn \<Rightarrow> parser \<Rightarrow> toml_value outcome"
  and parse_array :: "nat \<Rightarrow> stod_fn \<Rightarrow> parser \<Rightarrow> nat outcome"
  and parse_array_loop :: "nat \<Rightarrow> stod_fn \<Rightarrow> nat \<Rightarrow> parser \<Rightarrow> unit outcome"
  and parse_inline_table :: "nat \<Rightarrow> stod_fn \<Rightarrow> parser \<Rightarrow> nat outcome"
  and parse_inline_table_loop :: "nat \<Rightarrow> stod_fn \<Rightarrow> nat \<Rightarrow> parser \<Rightarrow> unit outcome"
where
  "parse_value 0 stod st0 = OutOfFuel"
| "parse_value (Suc fuel) stod st0 =
     (let st = skip_whitespace_no_nl st0; c = peek st in
      if c = CHR 0x22 then
        (case (if triple_quote_at (CHR 0x22) st
               then parse_multiline_basic_string (st\<lparr>current := current st + 3\<rparr>)
               else parse_basic_string st) of
           (s, st') \<Rightarrow> Returns (String s) st')
      else if c = CHR 0x27 then
        (case (if triple_quote_at (CHR 0x27) st
               then parse_multiline_literal_string (st\<lparr>current := current st + 3\<rparr>)
               else parse_literal_string st) of
           (s, st') \<Rightarrow> Returns (String s) st')
      else if c = CHR ''['' then
        (case parse_array fuel stod st of
           Returns arr st' \<Rightarrow> Returns (ArrayPtr arr) st'
         | Throws what st' \<Rightarrow> Throws what st'
         | OutOfFuel \<Rightarrow> OutOfFuel)
      else if c = CHR ''{'' then
        (case parse_inline_table fuel stod st of
           Returns t st' \<Rightarrow> Returns (TablePtr t) st'
         | Throws what st' \<Rightarrow> Throws what st'
         | OutOfFuel \<Rightarrow> OutOfFuel)
      else if isdigit c \<or> c = CHR ''+'' \<or> c = CHR ''-'' \<or> c = CHR ''.'' then
        parse_value_number stod c st
      else if c = CHR ''t'' \<or> c = CHR ''f'' then
        (case parse_boolean st of (b, st') \<Rightarrow> Returns (Boolean b) st')
      else if c = CHR ''i'' \<and> special_float_at ''inf'' st then
        Returns (Float Infinity) (st\<lparr>current := current st + 3\<rparr>)
      else if c = CHR ''n'' \<and> special_float_at ''nan'' st then
        Returns (Float QuietNaN) (st\<lparr>current := current st + 3\<rparr>)
      else Returns (Integer 0) (set_error (''Unexpected character in value: '' @ [c]) st))"
| "parse_array 0 stod st0 = OutOfFuel"
| "parse_array (Suc fuel) stod st0 =
     (let st1 = skip_comment (skip_whitespace (expect_char (CHR ''['') st0));
          array = fst (make_shared_Array st1); st2 = snd (make_shared_Array st1)
      in if peek st2 = CHR '']'' then Returns array (snd (advance st2))
         else (case parse_array_loop fuel stod array st2 of
                 Returns _ st3 \<Rightarrow> Returns array (expect_char (CHR '']'') st3)
               | Throws what st3 \<Rightarrow> Throws what st3
               | OutOfFuel \<Rightarrow> OutOfFuel))"
| "parse_array_loop 0 stod array st = OutOfFuel"
| "parse_array_loop (Suc fuel) stod array st =
     (if \<not> eof st then
        (case array_skip_loop st of
           (True, st1) \<Rightarrow> Returns () st1
         | (False, st1) \<Rightarrow>
             (case parse_value fuel stod st1 of
                Returns v st2 \<Rightarrow>
                  (let st3 = skip_whitespace (skip_comment (skip_whitespace (append_to array v st2)))
                   in if peek st3 = CHR '',''
                      then parse_array_loop fuel stod array
                             (skip_comment (skip_whitespace (snd (advance st3))))
                      else if peek st3 \<noteq> CHR '']''
                      then Returns () (set_error (''Expected '' @ [CHR 0x27] @ '','' @ [CHR 0x27]
                                                  @ '' or '' @ [CHR 0x27] @ '']'' @ [CHR 0x27]
                                                  @ '' in array'') st3)
                      else parse_array_loop fuel stod array st3)
              | Throws what st2 \<Rightarrow> Throws what st2
              | OutOfFuel \<Rightarrow> OutOfFuel))
      else Returns () st)"
| "parse_inline_table 0 stod st0 = OutOfFuel"
| "parse_inline_table (Suc fuel) stod st0 =
     (let st1 = skip_whitespace_no_nl (expect_char (CHR ''{'') st0);
          table = fst (make_shared_Table st1); st2 = snd (make_shared_Table st1)
      in if peek st2 = CHR ''}'' then Returns table (snd (advance st2))
         else (case parse_inline_table_loop fuel stod table st2 of
                 Returns _ st3 \<Rightarrow> Returns table (expect_char (CHR ''}'') st3)
               | Throws what st3 \<Rightarrow> Throws what st3
               | OutOfFuel \<Rightarrow> OutOfFuel))"
| "parse_inline_table_loop 0 stod table st = OutOfFuel"
| "parse_inline_table_loop (Suc fuel) stod table st =
     (if \<not> eof st then
        (case parse_dotted_key fuel st of
           Returns path st1 \<Rightarrow>
             if path = [] then Returns () st1
             else
               (case parse_value fuel stod
                       (skip_whitespace_no_nl (expect_char (CHR ''='') (skip_whitespace_no_nl st1))) of
                  Returns v st2 \<Rightarrow>
                    (let st3 = skip_whitespace_no_nl (set_value_at_path table path v st2)
                     in if peek st3 = CHR ''}'' then Returns () st3
                        else parse_inline_table_loop fuel stod table
                               (skip_whitespace_no_nl (expect_char (CHR '','') st3)))
                | Throws what st2 \<Rightarrow> Throws what st2
                | OutOfFuel \<Rightarrow> OutOfFuel)
         | Throws what st1 \<Rightarrow> Throws what st1
         | OutOfFuel \<Rightarrow> OutOfFuel)
      else Returns () st)"

subsection \<open>The document\<close>

definition parse_key_value_pair :: "nat \<Rightarrow> stod_fn \<Rightarrow> nat \<Rightarrow> parser \<Rightarrow> unit outcome" where
  "parse_key_value_pair fuel stod table st =
     (case parse_dotted_key fuel st of
        Returns path st1 \<Rightarrow>
          if path = [] then Returns () st1
          else
            (case parse_value fuel stod
                    (skip_whitespace_no_nl (expect_char (CHR ''='') (skip_whitespace_no_nl st1))) of
               Returns v st2 \<Rightarrow>
                 Returns () (set_value_at_path table path v (skip_comment (skip_whitespace_no_nl st2)))
             | Throws what st2 \<Rightarrow> Throws what st2
             | OutOfFuel \<Rightarrow> OutOfFuel)
      | Throws what st1 \<Rightarrow> Throws what st1
      | OutOfFuel \<Rightarrow> OutOfFuel)"

text \<open>
  A table header, from the \<^verbatim>\<open>[\<close> under the cursor to the assignment of
  \<^verbatim>\<open>current_table_\<close>. \<open>True\<close> when \<^verbatim>\<open>parse_document\<close> goes on with its loop
  (\<^verbatim>\<open>continue\<close>), \<open>False\<close> when it returns.
\<close>

definition parse_header :: "nat \<Rightarrow> parser \<Rightarrow> bool outcome" where
  "parse_header fuel st0 =
     (let st1 = skip_whitespace (snd (advance st0));
          is_array_of_tables = (peek st1 = CHR ''['');
          st2 = (if is_array_of_tables then skip_whitespace (snd (advance st1)) else st1)
      in case parse_dotted_key fuel st2 of
           Returns path st3 \<Rightarrow>
             if path = [] then Returns False (set_error ''Empty table header'' st3)
             else
               (let st4 = skip_whitespace st3;
                    st5 = (if is_array_of_tables
                           then expect_char (CHR '']'') (expect_char (CHR '']'') st4)
                           else expect_char (CHR '']'') st4);
                    st6 = skip_comment (skip_whitespace st5);
                    r = (if is_array_of_tables then get_or_create_array_append_table path st6
                         else get_or_create_table_at_path path st6);
                    st7 = (snd r)\<lparr>current_table := fst r\<rparr>
                in Returns (fst r \<noteq> None) st7)
         | Throws what st3 \<Rightarrow> Throws what st3
         | OutOfFuel \<Rightarrow> OutOfFuel)"

text \<open>
  The \<^verbatim>\<open>while (!eof())\<close> loop of \<^verbatim>\<open>parse_document\<close>. Where it reads \<^verbatim>\<open>current_table_\<close>
  the pointer is not null: a null pointer is assigned only right before \<^verbatim>\<open>return\<close>.
\<close>

fun parse_document_loop :: "nat \<Rightarrow> stod_fn \<Rightarrow> parser \<Rightarrow> unit outcome" where
  "parse_document_loop 0 stod st0 = OutOfFuel"
| "parse_document_loop (Suc fuel) stod st0 =
     (if \<not> eof st0 then
        (let st = skip_whitespace st0 in
         if eof st then Returns () st
         else if peek st = CHR ''#'' then parse_document_loop fuel stod (skip_comment st)
         else if peek st = CHR ''['' then
           (case parse_header fuel st of
              Returns continue st1 \<Rightarrow>
                if continue then parse_document_loop fuel stod st1 else Returns () st1
            | Throws what st1 \<Rightarrow> Throws what st1
            | OutOfFuel \<Rightarrow> OutOfFuel)
         else
           (case parse_key_value_pair fuel stod (the (current_table st)) st of
              Returns _ st1 \<Rightarrow>
                (let st2 = skip_whitespace st1;
                     st3 = (if \<not> eof st2 \<and> peek st2 \<noteq> CHR ''#'' \<and> peek st2 \<noteq> CHR ''[''
                            then skip_whitespace st2 else st2)
                 in parse_document_loop fuel stod st3)
            | Throws what st1 \<Rightarrow> Throws what st1
            | OutOfFuel \<Rightarrow> OutOfFuel))
      else Returns () st0)"

definition parse_document :: "nat \<Rightarrow> stod_fn \<Rightarrow> parser \<Rightarrow> unit outcome" where
  "parse_document fuel stod st = parse_document_loop fuel stod (skip_whitespace st)"

text \<open>
  The assignments of \<^verbatim>\<open>parse\<close> between the pre-validation loop and the call of
  \<^verbatim>\<open>parse_document\<close>: cursor and end of the input, a new root table, the current table.
\<close>

definition begin_document :: "string \<Rightarrow> parser \<Rightarrow> parser" where
  "begin_document inp st =
     (let st2 = st\<lparr>input := inp, current := 0, endp := length inp\<rparr>;
          root = fst (make_shared_Table st2)
      in (snd (make_shared_Table st2))\<lparr>root_table := root, current_table := Some root\<rparr>)"

text \<open>
  \<^verbatim>\<open>TomlParser::parse\<close>. The result is the returned pointer (\<open>None\<close> for \<^verbatim>\<open>nullptr\<close>) and the
  parser behind the call, or \<open>None\<close> when the recursion bound \<open>fuel\<close> did not suffice.
\<close>

definition parse :: "nat \<Rightarrow> stod_fn \<Rightarrow> string \<Rightarrow> parser \<Rightarrow> (nat option \<times> parser) option" where
  "parse fuel stod inp st0 =
     (let st1 = st0\<lparr>error_message := [], array_of_tables_paths := {}\<rparr> in
      if control_scan inp 0 then Some (None, set_error control_message st1)
      else
        (case parse_document fuel stod (begin_document inp st1) of
           Throws what st4 \<Rightarrow> Some (None, set_error what st4)
         | Returns _ st4 \<Rightarrow>
             Some (if has_error st4 then (None, st4) else (Some (root_table st4), st4))
         | OutOfFuel \<Rightarrow> None))"

text \<open>
  An instance of the \<^verbatim>\<open>std::stod\<close> parameter: the call never throws and its result is kept
  as the text it was given.
\<close>

definition stod_total :: stod_fn where
  "stod_total s = Some (Stod s)"

subsection \<open>What an outcome leaves in the error field\<close>

text \<open>
  \<open>outcome_has m out\<close>: the parser state that \<open>out\<close> carries, whether the function returned
  or threw, has \<open>m\<close> as its error message.
\<close>

definition outcome_has :: "string \<Rightarrow> 'a outcome \<Rightarrow> bool" where
  "outcome_has m out =
     (case out of Returns v st' \<Rightarrow> error_message st' = m
                | Throws what st' \<Rightarrow> error_message st' = m
                | OutOfFuel \<Rightarrow> True)"

subsection \<open>Digits of a prefixed integer\<close>

text \<open>
  The digit test in the condition of the loop that reads a prefixed integer, as one
  predicate of the base.
\<close>

definition base_digit :: "nat \<Rightarrow> char \<Rightarrow> bool" where
  "base_digit base ch = ((base = 16 \<and> is_hex ch) \<or> (base = 8 \<and> is_oct ch) \<or> (base = 2 \<and> is_bin ch))"

subsection \<open>The forbidden bytes in the words of the specification\<close>

text \<open>
  Not taken from the source: the specification's description of a forbidden byte at
  index \<open>j\<close> of the input, against which the scanning loop of \<^verbatim>\<open>parse\<close> is compared. A byte
  is forbidden when it lies in \<open>[0x00, 0x1F]\<close> and is neither a tab, nor a line feed, nor a
  carriage return immediately followed by a line feed, or when it is \<open>0x7F\<close>.
\<close>

definition spec_forbidden_at :: "string \<Rightarrow> nat \<Rightarrow> bool" where
  "spec_forbidden_at inp j =
     (let u = (of_char (inp ! j) :: nat)
      in (u \<le> 0x1F \<and> u \<noteq> 0x09 \<and> u \<noteq> 0x0A
            \<and> \<not> (u = 0x0D \<and> j + 1 < length inp \<and> inp ! (j + 1) = CHR 0x0A))
         \<or> u = 0x7F)"

section \<open>Verified properties\<close>

subsection \<open>The AVX2 fast path against the scalar loops\<close>

lemma skipP_step:
  assumes "ptr < end" "end \<le> length buf"
  shows "skipP P buf ptr end = (if P (buf ! ptr) then skipP P buf (Suc ptr) end else ptr)"
proof -
  from assms have d: "drop ptr buf = buf ! ptr # drop (Suc ptr) buf"
    by (simp add: Cons_nth_drop_Suc)
  from assms obtain k where k: "end - ptr = Suc k" "end - Suc ptr = k"
    by (cases "end - ptr") auto
  show ?thesis by (simp add: skipP_def d k)
qed

lemma skipP_stop: "\<not> ptr < end \<Longrightarrow> skipP P buf ptr end = ptr"
  by (simp add: skipP_def)

lemma skip_whitespace_scalar_skipP:
  "end \<le> length buf \<Longrightarrow> skip_whitespace_scalar buf ptr end = skipP is_whitespace buf ptr end"
proof (induction buf ptr "end" rule: skip_whitespace_scalar.induct)
  case (1 buf ptr e)
  show ?case
  proof (cases "ptr < e")
    case True
    with 1 show ?thesis
      by (subst skip_whitespace_scalar.simps) (simp add: skipP_step)
  next
    case False
    then show ?thesis
      by (subst skip_whitespace_scalar.simps) (simp add: skipP_stop)
  qed
qed

lemma movemask_bit:
  "bit (mm256_movemask_epi8 lanes) n \<longleftrightarrow> n < 32 \<and> n < length lanes \<and> lanes ! n"
  by (auto simp: mm256_movemask_epi8_def bit_horner_sum_bit_word_iff)

lemma movemask_full:
  assumes "length lanes = 32"
  shows "mm256_movemask_epi8 lanes = 0xFFFFFFFF \<longleftrightarrow> (\<forall>n < 32. lanes ! n)"
proof -
  have m: "(0xFFFFFFFF :: 32 word) = - 1" by simp
  show ?thesis unfolding m
    by (auto simp: bit_eq_iff movemask_bit assms dest: bit_imp_le_length)
qed

lemma movemask_zero:
  assumes "length lanes = 32"
  shows "mm256_movemask_epi8 lanes = 0 \<longleftrightarrow> (\<forall>n < 32. \<not> lanes ! n)"
  by (auto simp: bit_eq_iff movemask_bit assms)

lemma takeWhile_upt_length:
  "length (takeWhile (\<lambda>n. Q n) [0..<m]) = length (takeWhile id (map Q [0..<m]))"
  by (simp add: takeWhile_map comp_def)

lemma ctz_not_movemask:
  assumes "length lanes = 32"
  shows "ctz (NOT (mm256_movemask_epi8 lanes)) = length (takeWhile id lanes)"
proof -
  have "map (\<lambda>n. \<not> bit (NOT (mm256_movemask_epi8 lanes)) n) [0..<32] = map (\<lambda>n. lanes ! n) [0..<32]"
    by (rule map_cong) (auto simp: bit_not_iff movemask_bit assms)
  also have "\<dots> = lanes" using assms map_nth[of lanes] by simp
  finally have "map (\<lambda>n. \<not> bit (NOT (mm256_movemask_epi8 lanes)) n) [0..<32] = lanes" .
  then show ?thesis
    unfolding ctz_def by (metis takeWhile_upt_length)
qed

lemma ctz_movemask:
  assumes "length lanes = 32"
  shows "ctz (mm256_movemask_epi8 lanes) = length (takeWhile Not lanes)"
proof -
  have "map (\<lambda>n. \<not> bit (mm256_movemask_epi8 lanes) n) [0..<32] = map (\<lambda>n. \<not> lanes ! n) [0..<32]"
    by (rule map_cong) (auto simp: movemask_bit assms)
  also have "\<dots> = map Not (map (\<lambda>n. lanes ! n) [0..<32])" by simp
  also have "\<dots> = map Not lanes" using assms map_nth[of lanes] by simp
  finally have e: "map (\<lambda>n. \<not> bit (mm256_movemask_epi8 lanes) n) [0..<32] = map Not lanes" .
  have "ctz (mm256_movemask_epi8 lanes) = length (takeWhile id (map Not lanes))"
    unfolding ctz_def by (metis takeWhile_upt_length e)
  then show ?thesis by (simp add: takeWhile_map comp_def)
qed


lemma skipP_chunk:
  assumes "ptr + 32 \<le> end" "end \<le> length buf"
  shows "skipP P buf ptr end =
           (if \<forall>x \<in> set (mm256_loadu_si256 buf ptr). P x then skipP P buf (ptr + 32) end
            else ptr + length (takeWhile P (mm256_loadu_si256 buf ptr)))"
proof -
  let ?chunk = "mm256_loadu_si256 buf ptr"
  let ?rest = "take (end - (ptr + 32)) (drop (ptr + 32) buf)"
  have len: "length ?chunk = 32" using assms by (simp add: mm256_loadu_si256_def)
  have "take (end - ptr) (drop ptr buf) = take (32 + (end - (ptr + 32))) (drop ptr buf)"
    using assms by simp
  also have "\<dots> = ?chunk @ ?rest"
    unfolding mm256_loadu_si256_def take_add by (simp add: add.commute)
  finally have split: "take (end - ptr) (drop ptr buf) = ?chunk @ ?rest" .
  show ?thesis
  proof (cases "\<forall>x \<in> set ?chunk. P x")
    case True
    then have "takeWhile P (?chunk @ ?rest) = ?chunk @ takeWhile P ?rest"
      by (simp add: takeWhile_append2)
    with True len show ?thesis by (simp add: skipP_def split)
  next
    case False
    then obtain x where "x \<in> set ?chunk" "\<not> P x" by blast
    then have "takeWhile P (?chunk @ ?rest) = takeWhile P ?chunk"
      by (simp add: takeWhile_append1)
    with False show ?thesis by (auto simp add: skipP_def split)
  qed
qed

lemma chunk_length: "ptr + 32 \<le> length buf \<Longrightarrow> length (mm256_loadu_si256 buf ptr) = 32"
  by (simp add: mm256_loadu_si256_def)

lemma or_cmpeq:
  "mm256_or_si256 (map f chunk) (map g chunk) = map (\<lambda>b. f b \<or> g b) chunk"
  by (induction chunk) (simp_all add: mm256_or_si256_def)

lemma ws_lanes:
  "mm256_or_si256 (mm256_or_si256 (mm256_cmpeq_epi8 chunk (CHR '' '')) (mm256_cmpeq_epi8 chunk (CHR 0x09)))
     (mm256_or_si256 (mm256_cmpeq_epi8 chunk (CHR 0x0D)) (mm256_cmpeq_epi8 chunk (CHR 0x0A)))
   = map is_whitespace chunk"
  unfolding mm256_cmpeq_epi8_def or_cmpeq by (simp add: is_whitespace_def)

lemma ws_no_nl_lanes:
  "mm256_or_si256 (mm256_or_si256 (mm256_cmpeq_epi8 chunk (CHR '' '')) (mm256_cmpeq_epi8 chunk (CHR 0x09)))
     (mm256_cmpeq_epi8 chunk (CHR 0x0D))
   = map is_whitespace_no_nl chunk"
  unfolding mm256_cmpeq_epi8_def or_cmpeq by (simp add: is_whitespace_no_nl_def)

lemma lanes_all: "length chunk = 32 \<Longrightarrow> (\<forall>n<32. map P chunk ! n) \<longleftrightarrow> (\<forall>x \<in> set chunk. P x)"
  by (auto simp: all_set_conv_all_nth)

lemma lanes_none: "length chunk = 32 \<Longrightarrow> (\<forall>n<32. \<not> map P chunk ! n) \<longleftrightarrow> (\<forall>x \<in> set chunk. \<not> P x)"
  by (auto simp: all_set_conv_all_nth)

lemma takeWhile_id_map: "length (takeWhile id (map P xs)) = length (takeWhile P xs)"
  by (simp add: takeWhile_map comp_def)

lemma takeWhile_Not_map: "length (takeWhile Not (map P xs)) = length (takeWhile (\<lambda>x. \<not> P x) xs)"
  by (simp add: takeWhile_map comp_def)

lemma skip_whitespace_avx2_loop_skipP:
  "end \<le> length buf \<Longrightarrow> skip_whitespace_avx2_loop buf ptr end = skipP is_whitespace buf ptr end"
proof (induction buf ptr "end" rule: skip_whitespace_avx2_loop.induct)
  case (1 buf ptr e)
  show ?case
  proof (cases "int e - int ptr \<ge> 32")
    case True
    then have b: "ptr + 32 \<le> e" by simp
    with 1(2) have len: "length (mm256_loadu_si256 buf ptr) = 32" by (simp add: chunk_length)
    have len': "length (map is_whitespace (mm256_loadu_si256 buf ptr)) = 32" using len by simp
    show ?thesis
    proof (cases "\<forall>x \<in> set (mm256_loadu_si256 buf ptr). is_whitespace x")
      case all: True
      then have full: "mm256_movemask_epi8 (map is_whitespace (mm256_loadu_si256 buf ptr)) = 0xFFFFFFFF"
        by (simp add: movemask_full[OF len'] lanes_all[OF len])
      have "skip_whitespace_avx2_loop buf ptr e = skip_whitespace_avx2_loop buf (ptr + 32) e"
        by (subst skip_whitespace_avx2_loop.simps) (simp add: True ws_lanes full Let_def)
      also have "\<dots> = skipP is_whitespace buf (ptr + 32) e"
        using 1(1)[OF True refl refl refl refl refl refl refl] 1(2) full
        by (simp add: ws_lanes)
      finally show ?thesis using all by (simp add: skipP_chunk[OF b 1(2)])
    next
      case nall: False
      then have nfull: "mm256_movemask_epi8 (map is_whitespace (mm256_loadu_si256 buf ptr)) \<noteq> 0xFFFFFFFF"
        by (simp add: movemask_full[OF len'] lanes_all[OF len])
      have "skip_whitespace_avx2_loop buf ptr e
              = ptr + ctz (NOT (mm256_movemask_epi8 (map is_whitespace (mm256_loadu_si256 buf ptr))))"
        by (subst skip_whitespace_avx2_loop.simps) (simp add: True ws_lanes nfull Let_def)
      then show ?thesis using nall
        by (auto simp add: skipP_chunk[OF b 1(2)] ctz_not_movemask[OF len'] takeWhile_id_map)
    qed
  next
    case False
    then show ?thesis using 1(2)
      by (subst skip_whitespace_avx2_loop.simps) (simp add: skip_whitespace_scalar_skipP)
  qed
qed


lemma skip_whitespace_no_nl_scalar_skipP:
  "end \<le> length buf \<Longrightarrow>
   skip_whitespace_no_nl_scalar buf ptr end = skipP is_whitespace_no_nl buf ptr end"
proof (induction buf ptr "end" rule: skip_whitespace_no_nl_scalar.induct)
  case (1 buf ptr e)
  show ?case
  proof (cases "ptr < e")
    case True
    with 1 show ?thesis
      by (subst skip_whitespace_no_nl_scalar.simps) (simp add: skipP_step)
  next
    case False
    then show ?thesis
      by (subst skip_whitespace_no_nl_scalar.simps) (simp add: skipP_stop)
  qed
qed

lemma find_char_scalar_skipP:
  "end \<le> length buf \<Longrightarrow> find_char_scalar buf ptr end c = skipP (\<lambda>b. b \<noteq> c) buf ptr end"
proof (induction buf ptr "end" c rule: find_char_scalar.induct)
  case (1 buf ptr e c)
  show ?case
  proof (cases "ptr < e")
    case True
    with 1 show ?thesis
      by (subst find_char_scalar.simps) (simp add: skipP_step)
  next
    case False
    then show ?thesis
      by (subst find_char_scalar.simps) (simp add: skipP_stop)
  qed
qed

lemma skip_whitespace_no_nl_avx2_loop_skipP:
  "end \<le> length buf \<Longrightarrow>
   skip_whitespace_no_nl_avx2_loop buf ptr end = skipP is_whitespace_no_nl buf ptr end"
proof (induction buf ptr "end" rule: skip_whitespace_no_nl_avx2_loop.induct)
  case (1 buf ptr e)
  let ?lanes = "map is_whitespace_no_nl (mm256_loadu_si256 buf ptr)"
  show ?case
  proof (cases "int e - int ptr \<ge> 32")
    case True
    then have b: "ptr + 32 \<le> e" by simp
    with 1(2) have len: "length (mm256_loadu_si256 buf ptr) = 32" by (simp add: chunk_length)
    have len': "length ?lanes = 32" using len by simp
    show ?thesis
    proof (cases "\<forall>x \<in> set (mm256_loadu_si256 buf ptr). is_whitespace_no_nl x")
      case all: True
      then have full: "mm256_movemask_epi8 ?lanes = 0xFFFFFFFF"
        by (simp add: movemask_full[OF len'] lanes_all[OF len])
      have "skip_whitespace_no_nl_avx2_loop buf ptr e = skip_whitespace_no_nl_avx2_loop buf (ptr + 32) e"
        by (subst skip_whitespace_no_nl_avx2_loop.simps) (simp add: True ws_no_nl_lanes full Let_def)
      also have "\<dots> = skipP is_whitespace_no_nl buf (ptr + 32) e"
        using 1(1)[OF True refl refl refl refl refl refl] 1(2) full
        by (simp add: ws_no_nl_lanes)
      finally show ?thesis using all by (simp add: skipP_chunk[OF b 1(2)])
    next
      case nall: False
      then have nfull: "mm256_movemask_epi8 ?lanes \<noteq> 0xFFFFFFFF"
        by (simp add: movemask_full[OF len'] lanes_all[OF len])
      have "skip_whitespace_no_nl_avx2_loop buf ptr e = ptr + ctz (NOT (mm256_movemask_epi8 ?lanes))"
        by (subst skip_whitespace_no_nl_avx2_loop.simps) (simp add: True ws_no_nl_lanes nfull Let_def)
      then show ?thesis using nall
        by (auto simp add: skipP_chunk[OF b 1(2)] ctz_not_movemask[OF len'] takeWhile_id_map)
    qed
  next
    case False
    then show ?thesis using 1(2)
      by (subst skip_whitespace_no_nl_avx2_loop.simps) (simp add: skip_whitespace_no_nl_scalar_skipP)
  qed
qed

lemma find_char_avx2_loop_skipP:
  "end \<le> length buf \<Longrightarrow> find_char_avx2_loop buf ptr end c = skipP (\<lambda>b. b \<noteq> c) buf ptr end"
proof (induction buf ptr "end" c rule: find_char_avx2_loop.induct)
  case (1 buf ptr e c)
  let ?lanes = "map (\<lambda>b. b = c) (mm256_loadu_si256 buf ptr)"
  show ?case
  proof (cases "int e - int ptr \<ge> 32")
    case True
    then have b: "ptr + 32 \<le> e" by simp
    with 1(2) have len: "length (mm256_loadu_si256 buf ptr) = 32" by (simp add: chunk_length)
    have len': "length ?lanes = 32" using len by simp
    show ?thesis
    proof (cases "\<forall>x \<in> set (mm256_loadu_si256 buf ptr). x \<noteq> c")
      case all: True
      then have zero: "mm256_movemask_epi8 ?lanes = 0"
        by (simp add: movemask_zero[OF len'] lanes_none[OF len])
      have "find_char_avx2_loop buf ptr e c = find_char_avx2_loop buf (ptr + 32) e c"
        by (subst find_char_avx2_loop.simps) (simp add: True mm256_cmpeq_epi8_def zero Let_def)
      also have "\<dots> = skipP (\<lambda>b. b \<noteq> c) buf (ptr + 32) e"
        using 1(1)[OF True refl refl refl] 1(2) zero
        by (simp add: mm256_cmpeq_epi8_def)
      finally show ?thesis using all by (simp add: skipP_chunk[OF b 1(2)])
    next
      case nall: False
      then have nzero: "mm256_movemask_epi8 ?lanes \<noteq> 0"
        by (simp add: movemask_zero[OF len'] lanes_none[OF len])
      have "find_char_avx2_loop buf ptr e c = ptr + ctz (mm256_movemask_epi8 ?lanes)"
        by (subst find_char_avx2_loop.simps) (simp add: True mm256_cmpeq_epi8_def nzero Let_def)
      then show ?thesis using nall
        by (auto simp add: skipP_chunk[OF b 1(2)] ctz_movemask[OF len'] takeWhile_Not_map)
    qed
  next
    case False
    then show ?thesis using 1(2)
      by (subst find_char_avx2_loop.simps) (simp add: find_char_scalar_skipP)
  qed
qed

lemma skipP_first:
  assumes "ptr \<le> end" "end \<le> length buf"
  shows "ptr \<le> skipP P buf ptr end \<and> skipP P buf ptr end \<le> end
         \<and> (\<forall>i. ptr \<le> i \<and> i < skipP P buf ptr end \<longrightarrow> P (buf ! i))
         \<and> (skipP P buf ptr end < end \<longrightarrow> \<not> P (buf ! skipP P buf ptr end))"
proof -
  let ?xs = "take (end - ptr) (drop ptr buf)"
  let ?n = "length (takeWhile P ?xs)"
  have lx: "length ?xs = end - ptr" using assms by simp
  have nle: "?n \<le> end - ptr" using length_takeWhile_le[of P ?xs] lx by simp
  have nth: "\<And>j. j < end - ptr \<Longrightarrow> ?xs ! j = buf ! (ptr + j)" using assms by simp
  have a: "\<forall>i. ptr \<le> i \<and> i < ptr + ?n \<longrightarrow> P (buf ! i)"
  proof (intro allI impI)
    fix i assume i: "ptr \<le> i \<and> i < ptr + ?n"
    then have j: "i - ptr < ?n" by arith
    then have "P (takeWhile P ?xs ! (i - ptr))" by (meson nth_mem set_takeWhileD)
    moreover have "takeWhile P ?xs ! (i - ptr) = ?xs ! (i - ptr)" using j by (rule takeWhile_nth)
    ultimately show "P (buf ! i)" using nth[of "i - ptr"] j nle i by simp
  qed
  have b: "ptr + ?n < end \<longrightarrow> \<not> P (buf ! (ptr + ?n))"
  proof
    assume "ptr + ?n < end"
    then have lt: "?n < length ?xs" using lx by arith
    then have "\<not> P (?xs ! ?n)" by (rule nth_length_takeWhile)
    then show "\<not> P (buf ! (ptr + ?n))" using nth[of ?n] lt lx by simp
  qed
  show ?thesis unfolding skipP_def using nle a b assms by auto
qed

text \<open>
  Claim C3. For every pointer range \<open>(ptr, end)\<close> inside a buffer, the AVX2 versions of
  \<^verbatim>\<open>skip_whitespace\<close>, \<^verbatim>\<open>skip_whitespace_no_nl\<close> and \<^verbatim>\<open>find_char_simd\<close> return the same
  position as the scalar fallback loops; for \<open>ptr \<le> end\<close> that position is the first one
  in the range whose byte is outside the whitespace class (respectively equal to the
  target character), or \<open>end\<close> when there is none.
\<close>

theorem avx2_fast_path_equals_scalar:
  assumes "end \<le> length buf"
  shows "skip_whitespace_avx2 buf ptr end = skip_whitespace_scalar buf ptr end
       \<and> skip_whitespace_no_nl_avx2 buf ptr end = skip_whitespace_no_nl_scalar buf ptr end
       \<and> find_char_avx2 buf ptr end c = find_char_scalar buf ptr end c
       \<and> (ptr \<le> end \<longrightarrow>
            (let r = skip_whitespace_avx2 buf ptr end
             in ptr \<le> r \<and> r \<le> end \<and> (\<forall>i. ptr \<le> i \<and> i < r \<longrightarrow> is_whitespace (buf ! i))
                \<and> (r < end \<longrightarrow> \<not> is_whitespace (buf ! r)))
          \<and> (let r = skip_whitespace_no_nl_avx2 buf ptr end
             in ptr \<le> r \<and> r \<le> end \<and> (\<forall>i. ptr \<le> i \<and> i < r \<longrightarrow> is_whitespace_no_nl (buf ! i))
                \<and> (r < end \<longrightarrow> \<not> is_whitespace_no_nl (buf ! r)))
          \<and> (let r = find_char_avx2 buf ptr end c
             in ptr \<le> r \<and> r \<le> end \<and> (\<forall>i. ptr \<le> i \<and> i < r \<longrightarrow> buf ! i \<noteq> c)
                \<and> (r < end \<longrightarrow> buf ! r = c)))"
proof -
  have 1: "skip_whitespace_avx2 buf ptr end = skipP is_whitespace buf ptr end"
    using assms by (simp add: skip_whitespace_avx2_def skip_whitespace_scalar_skipP
        skip_whitespace_avx2_loop_skipP)
  have 2: "skip_whitespace_no_nl_avx2 buf ptr end = skipP is_whitespace_no_nl buf ptr end"
    using assms by (simp add: skip_whitespace_no_nl_avx2_def skip_whitespace_no_nl_scalar_skipP
        skip_whitespace_no_nl_avx2_loop_skipP)
  have 3: "find_char_avx2 buf ptr end c = skipP (\<lambda>b. b \<noteq> c) buf ptr end"
    using assms by (simp add: find_char_avx2_def find_char_scalar_skipP find_char_avx2_loop_skipP)
  show ?thesis
    unfolding 1 2 3 Let_def
    using assms skipP_first[of ptr "end" buf is_whitespace]
      skipP_first[of ptr "end" buf is_whitespace_no_nl]
      skipP_first[of ptr "end" buf "\<lambda>b. b \<noteq> c"]
    by (simp add: skip_whitespace_scalar_skipP skip_whitespace_no_nl_scalar_skipP
        find_char_scalar_skipP)
qed

theorem avx2_fast_path_equals_scalar_witness:
  "39 \<le> length avx2_sample
   \<and> skip_whitespace_avx2 avx2_sample 0 39 = 34 \<and> skip_whitespace_scalar avx2_sample 0 39 = 34
   \<and> skip_whitespace_no_nl_avx2 avx2_sample 0 39 = 33
   \<and> skip_whitespace_no_nl_scalar avx2_sample 0 39 = 33
   \<and> find_char_avx2 avx2_sample 0 39 (CHR ''='') = 36
   \<and> find_char_scalar avx2_sample 0 39 (CHR ''='') = 36"
proof -
  have h: "39 \<le> length avx2_sample" by (simp add: avx2_sample_def)
  have e1: "skip_whitespace_scalar avx2_sample 0 39 = 34" by code_simp
  have e2: "skip_whitespace_no_nl_scalar avx2_sample 0 39 = 33" by code_simp
  have e3: "find_char_scalar avx2_sample 0 39 (CHR ''='') = 36" by code_simp
  from avx2_fast_path_equals_scalar [OF h, of 0 "CHR ''=''"] e1 e2 e3 h
  show ?thesis by simp
qed

subsection \<open>The cursor\<close>

lemma forward_within: "forward st st' \<Longrightarrow> current st \<le> endp st \<Longrightarrow> current st' \<le> endp st'"
  by (auto simp: forward_def)

text \<open>
  Claim C10. \<^verbatim>\<open>peek\<close> and \<^verbatim>\<open>advance\<close> are total; at or past \<^verbatim>\<open>end_\<close> both return NUL and
  \<^verbatim>\<open>advance\<close> leaves the parser as it is; before \<^verbatim>\<open>end_\<close> they read the byte under the
  cursor, which lies inside the buffer, and \<^verbatim>\<open>advance\<close> moves by one. A cursor that is not
  past \<^verbatim>\<open>end_\<close> is not past it after \<^verbatim>\<open>advance\<close>, \<^verbatim>\<open>expect_char\<close>, either whitespace skip or
  \<^verbatim>\<open>skip_comment\<close>.
\<close>

theorem cursor_never_passes_end:
  "eof st = (current st \<ge> endp st)
   \<and> (current st \<ge> endp st \<longrightarrow> peek st = CHR 0x00 \<and> advance st = (CHR 0x00, st))
   \<and> (current st < endp st \<longrightarrow>
        peek st = input st ! current st
        \<and> advance st = (input st ! current st, st\<lparr>current := current st + 1\<rparr>))
   \<and> (current st < endp st \<and> endp st \<le> length (input st) \<longrightarrow> current st < length (input st))
   \<and> (current st \<le> endp st \<longrightarrow>
        current (snd (advance st)) \<le> endp (snd (advance st))
        \<and> current (expect_char c st) \<le> endp (expect_char c st)
        \<and> current (skip_whitespace st) \<le> endp (skip_whitespace st)
        \<and> current (skip_whitespace_no_nl st) \<le> endp (skip_whitespace_no_nl st)
        \<and> current (skip_comment st) \<le> endp (skip_comment st))"
proof -
  have "current st \<le> endp st \<longrightarrow>
        current (snd (advance st)) \<le> endp (snd (advance st))
        \<and> current (expect_char c st) \<le> endp (expect_char c st)
        \<and> current (skip_whitespace st) \<le> endp (skip_whitespace st)
        \<and> current (skip_whitespace_no_nl st) \<le> endp (skip_whitespace_no_nl st)
        \<and> current (skip_comment st) \<le> endp (skip_comment st)"
    using forward_within [OF forward_advance, of st]
      forward_within [OF forward_expect_char, of st c]
      forward_within [OF forward_skip_whitespace, of st]
      forward_within [OF forward_skip_whitespace_no_nl, of st]
      forward_within [OF forward_skip_comment, of st]
    by blast
  moreover have "eof st = (current st \<ge> endp st)
   \<and> (current st \<ge> endp st \<longrightarrow> peek st = CHR 0x00 \<and> advance st = (CHR 0x00, st))
   \<and> (current st < endp st \<longrightarrow>
        peek st = input st ! current st
        \<and> advance st = (input st ! current st, st\<lparr>current := current st + 1\<rparr>))
   \<and> (current st < endp st \<and> endp st \<le> length (input st) \<longrightarrow> current st < length (input st))"
    by (auto simp: eof_def peek_def advance_def)
  ultimately show ?thesis by blast
qed

theorem cursor_never_passes_end_witness:
  "current (on_input ''a #b'') < endp (on_input ''a #b'')
   \<and> endp (on_input ''a #b'') \<le> length (input (on_input ''a #b''))
   \<and> peek (on_input ''a #b'') = CHR ''a''
   \<and> current (snd (advance (on_input ''a #b''))) = 1
   \<and> current (snd (advance (on_input ''a #b''))) \<le> endp (snd (advance (on_input ''a #b'')))
   \<and> current (on_input ''a #b''\<lparr>current := 4\<rparr>) \<ge> endp (on_input ''a #b''\<lparr>current := 4\<rparr>)
   \<and> advance (on_input ''a #b''\<lparr>current := 4\<rparr>) = (CHR 0x00, on_input ''a #b''\<lparr>current := 4\<rparr>)"
  using cursor_never_passes_end [of "on_input ''a #b''" "CHR ''a''"]
    cursor_never_passes_end [of "on_input ''a #b''\<lparr>current := 4\<rparr>" "CHR ''a''"]
  by (simp add: on_input_def TomlParser_def)

subsection \<open>Unicode escapes in basic strings\<close>

lemma or_low_bits: "\<forall>x \<in> {0..<64}. (128::nat) OR x = 128 + x \<and> (192::nat) OR x = 192 + x"
  by code_simp

lemma or_low_bits2: "\<forall>x \<in> {0..<16}. (224::nat) OR x = 224 + x \<and> (240::nat) OR x = 240 + x"
  by code_simp

lemma and63: "(x::nat) AND 63 = x mod 64"
proof -
  have "x AND 63 = x AND mask 6" by (simp add: mask_eq_exp_minus_1)
  also have "\<dots> = take_bit 6 x" by (simp only: take_bit_eq_mask)
  also have "\<dots> = x mod 64" by (simp add: take_bit_eq_mod)
  finally show ?thesis .
qed

lemma unat_drop:
  fixes w :: "32 word"
  shows "unat (drop_bit n w) = unat w div 2 ^ n"
  unfolding unat_drop_bit_eq by (simp add: drop_bit_eq_div)

lemma or_add_nat:
  fixes a b :: nat
  assumes "b < 2 ^ n"
  shows "push_bit n a OR b = push_bit n a + b"
proof -
  have tb: "take_bit n b = b" using assms by (simp add: take_bit_nat_eq_self)
  have "push_bit n a + take_bit n b = push_bit n a OR take_bit n b"
    by (rule disjunctive_add) (auto simp: bit_simps)
  then show ?thesis by (simp add: tb)
qed

lemma unat_shift_or:
  fixes cp :: "32 word"
  assumes "unat cp < 2 ^ 28" "0 \<le> d" "d < 16"
  shows "unat (push_bit 4 cp OR of_int d) = 16 * unat cp + nat d"
proof -
  have d: "unat (of_int d :: 32 word) = nat d"
  proof -
    have "uint (of_int d :: 32 word) = d mod 2 ^ 32" by (simp add: uint_word_of_int)
    moreover have "unat (of_int d :: 32 word) = nat (uint (of_int d :: 32 word))"
      by (rule unat_eq_nat_uint)
    moreover have "d mod 2 ^ 32 = d" using assms by simp
    ultimately show ?thesis by (simp only:)
  qed
  have p: "unat (cp * 16) = unat cp * 16"
  proof -
    have "unat (cp * 16) = unat cp * 16 mod 2 ^ 32" by (simp add: unat_word_ariths)
    also have "\<dots> = unat cp * 16" using assms by simp
    finally show ?thesis .
  qed
  have "nat d < 2 ^ 4" using assms by simp
  from or_add_nat [OF this, of "unat cp"] show ?thesis
    by (simp add: unsigned_or_eq d p push_bit_eq_mult mult.commute)
qed

lemma unat_byte2:
  fixes cp :: "32 word"
  shows "unat (0x80 OR (cp AND 0x3F)) = 128 + unat cp mod 64"
    and "unat (0x80 OR (drop_bit 6 cp AND 0x3F)) = 128 + (unat cp div 64) mod 64"
    and "unat (0x80 OR (drop_bit 12 cp AND 0x3F)) = 128 + (unat cp div 4096) mod 64"
  using or_low_bits
  by (simp_all add: unsigned_or_eq unsigned_and_eq unat_drop and63)

lemma unat_lead:
  fixes cp :: "32 word"
  shows "unat cp < 2048 \<Longrightarrow> unat (0xC0 OR drop_bit 6 cp) = 192 + unat cp div 64"
    and "unat cp < 65536 \<Longrightarrow> unat (0xE0 OR drop_bit 12 cp) = 224 + unat cp div 4096"
    and "unat cp < 1114112 \<Longrightarrow> unat (0xF0 OR drop_bit 18 cp) = 240 + unat cp div 262144"
proof -
  show "unat cp < 2048 \<Longrightarrow> unat (0xC0 OR drop_bit 6 cp) = 192 + unat cp div 64"
  proof -
    assume "unat cp < 2048"
    then have "unat cp div 64 \<in> {0..<64}" by auto
    with or_low_bits show ?thesis
      by (simp add: unsigned_or_eq unat_drop)
  qed
  show "unat cp < 65536 \<Longrightarrow> unat (0xE0 OR drop_bit 12 cp) = 224 + unat cp div 4096"
  proof -
    assume "unat cp < 65536"
    then have "unat cp div 4096 \<in> {0..<16}" by auto
    with or_low_bits2 show ?thesis
      by (simp add: unsigned_or_eq unat_drop)
  qed
  show "unat cp < 1114112 \<Longrightarrow> unat (0xF0 OR drop_bit 18 cp) = 240 + unat cp div 262144"
  proof -
    assume "unat cp < 1114112"
    then have "unat cp div 262144 \<in> {0..<16}" by auto
    with or_low_bits2 show ?thesis
      by (simp add: unsigned_or_eq unat_drop)
  qed
qed

lemma append_utf8_encoding:
  fixes cp :: "32 word"
  assumes "unat cp \<le> 0x10FFFF" "\<not> (0xD800 \<le> unat cp \<and> unat cp \<le> 0xDFFF)"
  shows "append_utf8 out cp = (True, out @ utf8_encoding (unat cp))"
proof -
  have v: "\<not> (cp > 0x10FFFF \<or> (cp \<ge> 0xD800 \<and> cp \<le> 0xDFFF))"
    using assms by (simp add: word_le_nat_alt word_less_nat_alt)
  consider "unat cp < 0x80" | "0x80 \<le> unat cp" "unat cp < 0x800"
    | "0x800 \<le> unat cp" "unat cp < 0x10000" | "0x10000 \<le> unat cp"
    by linarith
  then show ?thesis
  proof cases
    case 1
    then have "cp \<le> 0x7F" by (simp add: word_le_nat_alt)
    with v 1 show ?thesis by (simp add: append_utf8_def utf8_encoding_def to_char_def)
  next
    case 2
    then have c: "\<not> cp \<le> 0x7F" "cp \<le> 0x7FF" by (simp_all add: word_le_nat_alt)
    have "unat cp < 2048" using 2 by simp
    with v 2 c show ?thesis
      by (simp add: append_utf8_def utf8_encoding_def to_char_def unat_byte2 unat_lead)
  next
    case 3
    then have c: "\<not> cp \<le> 0x7F" "\<not> cp \<le> 0x7FF" "cp \<le> 0xFFFF"
      by (simp_all add: word_le_nat_alt)
    have "unat cp < 65536" using 3 by simp
    with v 3 c show ?thesis
      by (simp add: append_utf8_def utf8_encoding_def to_char_def unat_byte2 unat_lead unat_drop)
  next
    case 4
    then have c: "\<not> cp \<le> 0x7F" "\<not> cp \<le> 0x7FF" "\<not> cp \<le> 0xFFFF"
      by (simp_all add: word_le_nat_alt)
    have "unat cp < 1114112" using assms by simp
    with v 4 c show ?thesis
      by (simp add: append_utf8_def utf8_encoding_def to_char_def unat_byte2 unat_lead unat_drop)
  qed
qed

lemma hex_digit_table:
  "hex_digit_value c = Some v \<Longrightarrow> hex_digit c = int v \<and> v < 16"
  by (simp add: hex_digit_value_def hex_digit_def split: if_splits)

lemma basic_loop_plain:
  assumes "input st = a @ s @ b" "current st = length a" "length a + length s \<le> endp st"
    "\<forall>c\<in>set s. c \<noteq> CHR 0x22 \<and> c \<noteq> CHR 0x5C"
  shows "parse_basic_string_loop st r
         = parse_basic_string_loop (st\<lparr>current := length a + length s\<rparr>) (r @ s)"
  using assms
proof (induction s arbitrary: a r st)
  case Nil
  then have "st\<lparr>current := length a\<rparr> = st" by (cases st) simp
  then show ?case by simp
next
  case (Cons c s)
  let ?st' = "st\<lparr>current := Suc (length a)\<rparr>"
  have ne: "\<not> eof st" using Cons.prems by (simp add: eof_def)
  have pk: "peek st = c" using Cons.prems ne by (simp add: peek_def)
  have adv: "advance st = (c, ?st')" using Cons.prems ne by (simp add: advance_def)
  have "parse_basic_string_loop st r = parse_basic_string_loop ?st' (r @ [c])"
    using Cons.prems ne pk adv by (subst parse_basic_string_loop.simps) simp
  also have "\<dots> = parse_basic_string_loop (?st'\<lparr>current := length (a @ [c]) + length s\<rparr>) ((r @ [c]) @ s)"
    by (rule Cons.IH) (use Cons.prems in simp_all)
  finally show ?case by simp
qed

lemma unicode_loop_digits:
  assumes "input st = a @ ds @ b" "current st = length a" "length a + length ds \<le> endp st"
    "\<forall>c\<in>set ds. 0 \<le> hex_digit c"
  shows "parse_unicode_escape_loop (length ds) cp st
         = (Inr (0, foldl (\<lambda>w c. push_bit 4 w OR of_int (hex_digit c)) cp ds),
            st\<lparr>current := length a + length ds\<rparr>)"
  using assms
proof (induction ds arbitrary: a cp st)
  case Nil
  then show ?case by simp
next
  case (Cons c ds)
  let ?st' = "st\<lparr>current := Suc (length a)\<rparr>"
  have ne: "\<not> eof st" using Cons.prems by (simp add: eof_def)
  have pk: "peek st = c" using Cons.prems ne by (simp add: peek_def)
  have adv: "advance st = (c, ?st')" using Cons.prems ne by (simp add: advance_def)
  have "parse_unicode_escape_loop (length (c # ds)) cp st
        = parse_unicode_escape_loop (length ds) (push_bit 4 cp OR of_int (hex_digit c)) ?st'"
    using Cons.prems ne pk adv by (simp add: Let_def)
  also have "\<dots> = (Inr (0, foldl (\<lambda>w c. push_bit 4 w OR of_int (hex_digit c))
                               (push_bit 4 cp OR of_int (hex_digit c)) ds),
                    ?st'\<lparr>current := length (a @ [c]) + length ds\<rparr>)"
    by (rule Cons.IH) (use Cons.prems in simp_all)
  finally show ?case by simp
qed

lemma hex_fold_value:
  fixes cp :: "32 word"
  assumes "\<forall>c\<in>set ds. hex_digit_value c \<noteq> None" "unat cp < 16 ^ k" "k + length ds \<le> 8"
  shows "unat (foldl (\<lambda>w c. push_bit 4 w OR of_int (hex_digit c)) cp ds)
         = foldl (\<lambda>n c. 16 * n + the (hex_digit_value c)) (unat cp) ds"
  using assms
proof (induction ds arbitrary: cp k)
  case Nil
  then show ?case by simp
next
  case (Cons c ds)
  from Cons.prems obtain v where v: "hex_digit_value c = Some v" by auto
  then have hv: "hex_digit c = int v" "v < 16" using hex_digit_table by auto
  have "k \<le> 7" using Cons.prems by simp
  then have "(16::nat) ^ k \<le> 16 ^ 7" by (rule power_increasing) simp
  then have small: "unat cp < 2 ^ 28" using Cons.prems by simp
  have step: "unat (push_bit 4 cp OR of_int (hex_digit c)) = 16 * unat cp + v"
    using unat_shift_or [OF small, of "hex_digit c"] hv by simp
  have "16 * unat cp + v < 16 * (unat cp + 1)" using hv by simp
  also have "\<dots> \<le> 16 * 16 ^ k" using Cons.prems by (simp add: Suc_leI)
  finally have bound: "unat (push_bit 4 cp OR of_int (hex_digit c)) < 16 ^ Suc k"
    using step by simp
  have "unat (foldl (\<lambda>w c. push_bit 4 w OR of_int (hex_digit c)) (push_bit 4 cp OR of_int (hex_digit c)) ds)
        = foldl (\<lambda>n c. 16 * n + the (hex_digit_value c)) (unat (push_bit 4 cp OR of_int (hex_digit c))) ds"
    by (rule Cons.IH [OF _ bound]) (use Cons.prems in simp_all)
  then show ?case using step v by simp
qed

lemma unicode_loop_value:
  assumes "input st = a @ ds @ b" "current st = length a" "length a + length ds \<le> endp st"
    "\<forall>c\<in>set ds. hex_digit_value c \<noteq> None" "length ds \<le> 8"
  shows "\<exists>cp. parse_unicode_escape_loop (length ds) 0 st
              = (Inr (0, cp), st\<lparr>current := length a + length ds\<rparr>) \<and> unat cp = hex_value ds"
proof -
  have nn: "\<forall>c\<in>set ds. 0 \<le> hex_digit c"
    using assms(4) hex_digit_table by fastforce
  have "unat (foldl (\<lambda>w c. push_bit 4 w OR of_int (hex_digit c)) (0 :: 32 word) ds) = hex_value ds"
    using hex_fold_value [OF assms(4), of 0 0] assms(5) by (simp add: hex_value_def)
  with unicode_loop_digits [OF assms(1-3) nn, of 0] show ?thesis by blast
qed

lemma parse_unicode_escape_digits:
  assumes "input st = a @ ds @ b" "current st = length a" "length a + length ds \<le> endp st"
    "\<forall>c\<in>set ds. hex_digit_value c \<noteq> None" "length ds \<le> 8"
  shows "parse_unicode_escape (length ds) st =
           (if hex_value ds \<le> 0x10FFFF \<and> \<not> (0xD800 \<le> hex_value ds \<and> hex_value ds \<le> 0xDFFF)
            then (utf8_encoding (hex_value ds), st\<lparr>current := length a + length ds\<rparr>)
            else (replacement_character,
                  set_error ''Invalid Unicode codepoint in escape''
                    (st\<lparr>current := length a + length ds\<rparr>)))"
proof -
  from unicode_loop_value [OF assms] obtain cp where
    l: "parse_unicode_escape_loop (length ds) 0 st = (Inr (0, cp), st\<lparr>current := length a + length ds\<rparr>)"
    and c: "unat cp = hex_value ds" by blast
  have cmp: "(cp > 0x10FFFF \<or> (cp \<ge> 0xD800 \<and> cp \<le> 0xDFFF))
             \<longleftrightarrow> \<not> (hex_value ds \<le> 0x10FFFF \<and> \<not> (0xD800 \<le> hex_value ds \<and> hex_value ds \<le> 0xDFFF))"
    using c by (auto simp: word_le_nat_alt word_less_nat_alt)
  show ?thesis
  proof (cases "hex_value ds \<le> 0x10FFFF \<and> \<not> (0xD800 \<le> hex_value ds \<and> hex_value ds \<le> 0xDFFF)")
    case True
    then have "append_utf8 [] cp = (True, utf8_encoding (hex_value ds))"
      using append_utf8_encoding [of cp "[]"] c by simp
    with True cmp l show ?thesis by (auto simp add: parse_unicode_escape_def)
  next
    case False
    with cmp l show ?thesis by (auto simp add: parse_unicode_escape_def)
  qed
qed

lemma escape_sequence_unicode:
  assumes "input st = a @ [m] @ ds @ b" "current st = length a"
    "length a + 1 + length ds \<le> endp st"
    "(m = CHR ''u'' \<and> length ds = 4) \<or> (m = CHR ''U'' \<and> length ds = 8)"
    "\<forall>c\<in>set ds. hex_digit_value c \<noteq> None"
  shows "parse_escape_sequence st =
           (if valid_codepoint (hex_value ds)
            then (utf8_encoding (hex_value ds), st\<lparr>current := length a + 1 + length ds\<rparr>)
            else (replacement_character,
                  set_error ''Invalid Unicode codepoint in escape''
                    (st\<lparr>current := length a + 1 + length ds\<rparr>)))"
proof -
  let ?st' = "st\<lparr>current := Suc (length a)\<rparr>"
  have ne: "\<not> eof st" using assms by (simp add: eof_def)
  have adv: "advance st = (m, ?st')" using assms ne by (simp add: advance_def)
  have l8: "length ds \<le> 8" using assms(4) by auto
  have u: "parse_unicode_escape (length ds) ?st' =
           (if valid_codepoint (hex_value ds)
            then (utf8_encoding (hex_value ds), ?st'\<lparr>current := length (a @ [m]) + length ds\<rparr>)
            else (replacement_character,
                  set_error ''Invalid Unicode codepoint in escape''
                    (?st'\<lparr>current := length (a @ [m]) + length ds\<rparr>)))"
    unfolding valid_codepoint_def
    by (rule parse_unicode_escape_digits [where b = b]) (use assms l8 in simp_all)
  have "parse_escape_sequence st = parse_unicode_escape (length ds) ?st'"
    using assms(4) ne adv by (auto simp: parse_escape_sequence_def Let_def)
  with u show ?thesis by simp
qed

lemma basic_string_tail:
  assumes "input st = a @ s @ [CHR 0x22] @ b" "current st = length a"
    "endp st = length (input st)" "\<forall>c\<in>set s. c \<noteq> CHR 0x22 \<and> c \<noteq> CHR 0x5C"
  shows "parse_basic_string_loop st r = (r @ s, st\<lparr>current := length a + length s\<rparr>)"
    and "expect_char (CHR 0x22) (st\<lparr>current := length a + length s\<rparr>)
         = st\<lparr>current := length a + length s + 1\<rparr>"
proof -
  let ?st' = "st\<lparr>current := length a + length s\<rparr>"
  have ne: "\<not> eof ?st'" using assms by (simp add: eof_def)
  have pk: "peek ?st' = CHR 0x22" using assms ne by (simp add: peek_def nth_append)
  have "parse_basic_string_loop st r = parse_basic_string_loop ?st' (r @ s)"
    by (rule basic_loop_plain [where b = "[CHR 0x22] @ b"]) (use assms in simp_all)
  also have "\<dots> = (r @ s, ?st')"
    using pk by (subst parse_basic_string_loop.simps) simp
  finally show "parse_basic_string_loop st r = (r @ s, ?st')" .
  show "expect_char (CHR 0x22) ?st' = st\<lparr>current := length a + length s + 1\<rparr>"
    using ne pk by (simp add: expect_char_def advance_def)
qed

text \<open>
  Claim C4. In a basic string whose other bytes are plain (neither a quote nor a
  backslash), a backslash escape \<^verbatim>\<open>u\<close> with four or \<^verbatim>\<open>U\<close> with eight hexadecimal digits
  denoting the code point \<open>C\<close> contributes exactly the UTF-8 encoding of \<open>C\<close> when
  \<open>C \<le> 0x10FFFF\<close> and \<open>C\<close> is no surrogate, and the parser ends behind the closing quote
  with its error state untouched. Otherwise \<^verbatim>\<open>set_error\<close> is called, so an error is
  recorded, the three bytes EF BF BD of U+FFFD are emitted in its place, and the scan goes
  on to the closing quote all the same.
\<close>

theorem unicode_escape_in_basic_string:
  assumes inp: "input st = pre @ [CHR 0x22] @ s1 @ [CHR 0x5C, m] @ ds @ s2 @ [CHR 0x22] @ post"
    and cur: "current st = length pre" and en: "endp st = length (input st)"
    and plain: "\<forall>c\<in>set (s1 @ s2). c \<noteq> CHR 0x22 \<and> c \<noteq> CHR 0x5C"
    and form: "(m = CHR ''u'' \<and> length ds = 4) \<or> (m = CHR ''U'' \<and> length ds = 8)"
    and hex: "\<forall>c\<in>set ds. hex_digit_value c \<noteq> None"
  shows "parse_basic_string st =
           (if valid_codepoint (hex_value ds)
            then (s1 @ utf8_encoding (hex_value ds) @ s2,
                  st\<lparr>current := length pre + length s1 + length ds + length s2 + 4\<rparr>)
            else (s1 @ replacement_character @ s2,
                  set_error ''Invalid Unicode codepoint in escape''
                    (st\<lparr>current := length pre + length s1 + length ds + length s2 + 4\<rparr>)))
         \<and> (\<not> valid_codepoint (hex_value ds) \<longrightarrow> has_error (snd (parse_basic_string st)))"
proof -
  let ?q = "CHR 0x22" and ?bs = "CHR 0x5C"
  let ?msg = "''Invalid Unicode codepoint in escape''"
  let ?C = "hex_value ds"
  let ?s0 = "st\<lparr>current := length pre + 1\<rparr>"
  let ?sA = "st\<lparr>current := length pre + 1 + length s1\<rparr>"
  let ?sB = "st\<lparr>current := length pre + 2 + length s1\<rparr>"
  let ?sD = "st\<lparr>current := length pre + 3 + length s1 + length ds\<rparr>"
  let ?N = "length pre + length s1 + length ds + length s2 + 4"
  have ne0: "\<not> eof st" using inp cur en by (simp add: eof_def)
  have pk0: "peek st = ?q" using inp cur ne0 by (simp add: peek_def)
  have e0: "expect_char ?q st = ?s0" using ne0 pk0 cur by (simp add: expect_char_def advance_def)
  have l1: "parse_basic_string_loop ?s0 [] = parse_basic_string_loop ?sA s1"
    using basic_loop_plain [of ?s0 "pre @ [?q]" s1 "[?bs, m] @ ds @ s2 @ [?q] @ post" "[]"]
      inp en plain by simp
  have neA: "\<not> eof ?sA" using inp en by (simp add: eof_def)
  have pkA: "peek ?sA = ?bs" using inp neA by (simp add: peek_def nth_append)
  have advA: "snd (advance ?sA) = ?sB" using neA by (simp add: advance_def)
  have l2: "parse_basic_string_loop ?sA s1
            = parse_basic_string_loop (snd (parse_escape_sequence ?sB))
                (s1 @ fst (parse_escape_sequence ?sB))"
    using neA pkA advA by (subst parse_basic_string_loop.simps) (simp add: Let_def)
  have pos: "length (pre @ [?q] @ s1 @ [?bs]) + 1 + length ds
             = length pre + 3 + length s1 + length ds" by simp
  have esc0: "parse_escape_sequence ?sB =
           (if valid_codepoint ?C
            then (utf8_encoding ?C,
                  ?sB\<lparr>current := length (pre @ [?q] @ s1 @ [?bs]) + 1 + length ds\<rparr>)
            else (replacement_character,
                  set_error ?msg
                    (?sB\<lparr>current := length (pre @ [?q] @ s1 @ [?bs]) + 1 + length ds\<rparr>)))"
    by (rule escape_sequence_unicode [where b = "s2 @ [?q] @ post"])
       (use inp en form hex in simp_all)
  have esc: "parse_escape_sequence ?sB =
           (if valid_codepoint ?C then (utf8_encoding ?C, ?sD)
            else (replacement_character, set_error ?msg ?sD))"
    using esc0 unfolding pos by simp
  show ?thesis
  proof (cases "valid_codepoint ?C")
    case True
    have t: "parse_basic_string_loop ?sD (s1 @ utf8_encoding ?C)
             = ((s1 @ utf8_encoding ?C) @ s2, ?sD\<lparr>current := length (pre @ [?q] @ s1 @ [?bs, m] @ ds) + length s2\<rparr>)"
      by (rule basic_string_tail(1) [where b = post]) (use inp en plain in simp_all)
    have x: "expect_char ?q (?sD\<lparr>current := length (pre @ [?q] @ s1 @ [?bs, m] @ ds) + length s2\<rparr>)
             = ?sD\<lparr>current := length (pre @ [?q] @ s1 @ [?bs, m] @ ds) + length s2 + 1\<rparr>"
      by (rule basic_string_tail(2) [where b = post]) (use inp en plain in simp_all)
    have "parse_basic_string st = (s1 @ utf8_encoding ?C @ s2, st\<lparr>current := ?N\<rparr>)"
      using True e0 l1 l2 esc t x
      by (simp add: parse_basic_string_def Let_def add.commute add.left_commute)
    with True show ?thesis by simp
  next
    case False
    let ?sE = "set_error ?msg ?sD"
    have t: "parse_basic_string_loop ?sE (s1 @ replacement_character)
             = ((s1 @ replacement_character) @ s2, ?sE\<lparr>current := length (pre @ [?q] @ s1 @ [?bs, m] @ ds) + length s2\<rparr>)"
      by (rule basic_string_tail(1) [where b = post]) (use inp en plain in \<open>simp_all add: set_error_def\<close>)
    have x: "expect_char ?q (?sE\<lparr>current := length (pre @ [?q] @ s1 @ [?bs, m] @ ds) + length s2\<rparr>)
             = ?sE\<lparr>current := length (pre @ [?q] @ s1 @ [?bs, m] @ ds) + length s2 + 1\<rparr>"
      by (rule basic_string_tail(2) [where b = post]) (use inp en plain in \<open>simp_all add: set_error_def\<close>)
    have fin: "?sE\<lparr>current := length (pre @ [?q] @ s1 @ [?bs, m] @ ds) + length s2 + 1\<rparr>
               = set_error ?msg (st\<lparr>current := ?N\<rparr>)"
      by (simp add: set_error_def add.commute add.left_commute)
    have r: "parse_basic_string st = (s1 @ replacement_character @ s2, set_error ?msg (st\<lparr>current := ?N\<rparr>))"
      using False e0 l1 l2 esc t x fin
      by (simp add: parse_basic_string_def Let_def)
    have "has_error (set_error ?msg (st\<lparr>current := ?N\<rparr>))"
      by (simp add: has_error_def set_error_def)
    with False r show ?thesis by simp
  qed
qed

theorem unicode_escape_in_basic_string_witness:
  "parse_basic_string (on_input ([] @ [CHR 0x22] @ ''a'' @ [CHR 0x5C, CHR ''u''] @ ''00e9'' @ ''b'' @ [CHR 0x22] @ []))
     = ([CHR ''a'', CHR 0xC3, CHR 0xA9, CHR ''b''],
        on_input ([] @ [CHR 0x22] @ ''a'' @ [CHR 0x5C, CHR ''u''] @ ''00e9'' @ ''b'' @ [CHR 0x22] @ [])\<lparr>current := 10\<rparr>)
   \<and> parse_basic_string (on_input ([] @ [CHR 0x22] @ [] @ [CHR 0x5C, CHR ''U''] @ ''0001F600'' @ [] @ [CHR 0x22] @ []))
     = ([CHR 0xF0, CHR 0x9F, CHR 0x98, CHR 0x80],
        on_input ([] @ [CHR 0x22] @ [] @ [CHR 0x5C, CHR ''U''] @ ''0001F600'' @ [] @ [CHR 0x22] @ [])\<lparr>current := 12\<rparr>)
   \<and> fst (parse_basic_string (on_input ([] @ [CHR 0x22] @ ''a'' @ [CHR 0x5C, CHR ''u''] @ ''D800'' @ ''b'' @ [CHR 0x22] @ [])))
     = [CHR ''a'', CHR 0xEF, CHR 0xBF, CHR 0xBD, CHR ''b'']
   \<and> has_error (snd (parse_basic_string (on_input ([] @ [CHR 0x22] @ ''a'' @ [CHR 0x5C, CHR ''u''] @ ''D800'' @ ''b'' @ [CHR 0x22] @ []))))"
proof -
  have v1: "hex_value ''00e9'' = 233" and v2: "hex_value ''0001F600'' = 128512"
    and v3: "hex_value ''D800'' = 55296"
    by (simp_all add: hex_value_def hex_digit_value_def)
  have u1: "utf8_encoding 233 = [CHR 0xC3, CHR 0xA9]"
    and u2: "utf8_encoding 128512 = [CHR 0xF0, CHR 0x9F, CHR 0x98, CHR 0x80]"
    by (simp_all add: utf8_encoding_def) code_simp+
  show ?thesis
    using unicode_escape_in_basic_string
        [of "on_input ([] @ [CHR 0x22] @ ''a'' @ [CHR 0x5C, CHR ''u''] @ ''00e9'' @ ''b'' @ [CHR 0x22] @ [])"
            "[]" "''a''" "CHR ''u''" "''00e9''" "''b''" "[]"]
      unicode_escape_in_basic_string
        [of "on_input ([] @ [CHR 0x22] @ [] @ [CHR 0x5C, CHR ''U''] @ ''0001F600'' @ [] @ [CHR 0x22] @ [])"
            "[]" "[]" "CHR ''U''" "''0001F600''" "[]" "[]"]
      unicode_escape_in_basic_string
        [of "on_input ([] @ [CHR 0x22] @ ''a'' @ [CHR 0x5C, CHR ''u''] @ ''D800'' @ ''b'' @ [CHR 0x22] @ [])"
            "[]" "''a''" "CHR ''u''" "''D800''" "''b''" "[]"]
    by (simp add: on_input_def TomlParser_def v1 v2 v3 u1 u2 valid_codepoint_def hex_digit_value_def has_error_def set_error_def
        replacement_character_def)
qed

subsection \<open>Closing a multiline basic string\<close>

lemma count_quotes_run:
  assumes "input st = a @ replicate n q @ b" "current st = length a"
    "endp st = length (input st)" "b = [] \<or> hd b \<noteq> q"
  shows "count_quotes q st k = (k + n, st\<lparr>current := length a + n\<rparr>)"
  using assms
proof (induction n arbitrary: a k st)
  case 0
  have same: "st\<lparr>current := length a\<rparr> = st" using 0 by (cases st) simp
  have "\<not> (\<not> eof st \<and> peek st = q)"
  proof (cases b)
    case Nil
    with 0 show ?thesis by (simp add: eof_def)
  next
    case (Cons x xs)
    with 0 show ?thesis by (simp add: peek_def eof_def)
  qed
  then show ?case using same by (subst count_quotes.simps) auto
next
  case (Suc n)
  let ?st' = "st\<lparr>current := Suc (length a)\<rparr>"
  have ne: "\<not> eof st" using Suc.prems by (simp add: eof_def)
  have pk: "peek st = q" using Suc.prems ne by (simp add: peek_def)
  have adv: "snd (advance st) = ?st'" using Suc.prems ne by (simp add: advance_def)
  have "count_quotes q st k = count_quotes q ?st' (k + 1)"
    using ne pk adv by (subst count_quotes.simps) simp
  also have "\<dots> = (k + 1 + n, ?st'\<lparr>current := length (a @ [q]) + n\<rparr>)"
    by (rule Suc.IH) (use Suc.prems in \<open>simp_all add: replicate_app_Cons_same\<close>)
  finally show ?case by simp
qed

lemma multiline_basic_loop_plain:
  assumes "input st = a @ s @ b" "current st = length a" "length a + length s \<le> endp st"
    "\<forall>c\<in>set s. c \<noteq> CHR 0x22 \<and> c \<noteq> CHR 0x5C"
  shows "parse_multiline_basic_string_loop st r
         = parse_multiline_basic_string_loop (st\<lparr>current := length a + length s\<rparr>) (r @ s)"
  using assms
proof (induction s arbitrary: a r st)
  case Nil
  then have "st\<lparr>current := length a\<rparr> = st" by (cases st) simp
  then show ?case by simp
next
  case (Cons c s)
  let ?st' = "st\<lparr>current := Suc (length a)\<rparr>"
  have ne: "\<not> eof st" using Cons.prems by (simp add: eof_def)
  have pk: "peek st = c" using Cons.prems ne by (simp add: peek_def)
  have adv: "advance st = (c, ?st')" using Cons.prems ne by (simp add: advance_def)
  have "parse_multiline_basic_string_loop st r = parse_multiline_basic_string_loop ?st' (r @ [c])"
    using Cons.prems ne pk adv by (subst parse_multiline_basic_string_loop.simps) simp
  also have "\<dots> = parse_multiline_basic_string_loop
                      (?st'\<lparr>current := length (a @ [c]) + length s\<rparr>) ((r @ [c]) @ s)"
    by (rule Cons.IH) (use Cons.prems in simp_all)
  finally show ?case by simp
qed

text \<open>
  What the loop does with a maximal run of \<open>n \<ge> 3\<close> quotes behind plain content: \<open>n - 3\<close>
  quotes go to the content, and the string is closed only when \<open>n = 3\<close> or the run is
  followed by the end of the input, LF or CR; before any other byte the scan goes on.
\<close>

lemma multiline_basic_string_run:
  assumes inp: "input st = a @ s @ replicate n (CHR 0x22) @ b"
    and cur: "current st = length a" and en: "endp st = length (input st)"
    and plain: "\<forall>c\<in>set s. c \<noteq> CHR 0x22 \<and> c \<noteq> CHR 0x5C"
    and run: "3 \<le> n" "b = [] \<or> hd b \<noteq> CHR 0x22"
  shows "parse_multiline_basic_string_loop st r =
           (if n = 3 \<or> b = [] \<or> hd b = CHR 0x0A \<or> hd b = CHR 0x0D
            then (r @ s @ replicate (n - 3) (CHR 0x22), st\<lparr>current := length a + length s + n\<rparr>)
            else parse_multiline_basic_string_loop (st\<lparr>current := length a + length s + n\<rparr>)
                   (r @ s @ replicate (n - 3) (CHR 0x22)))"
proof -
  let ?q = "CHR 0x22"
  let ?sA = "st\<lparr>current := length a + length s\<rparr>"
  let ?sB = "st\<lparr>current := length a + length s + n\<rparr>"
  have l1: "parse_multiline_basic_string_loop st r = parse_multiline_basic_string_loop ?sA (r @ s)"
    by (rule multiline_basic_loop_plain [where b = "replicate n ?q @ b"])
       (use inp cur en plain in simp_all)
  have neA: "\<not> eof ?sA" using inp en run by (simp add: eof_def)
  obtain n' where n': "n = Suc n'" using run by (cases n) auto
  have pkA: "peek ?sA = ?q" using inp neA n' by (simp add: peek_def nth_append)
  have cq: "count_quotes ?q ?sA 0 = (0 + n, ?sA\<lparr>current := length (a @ s) + n\<rparr>)"
    by (rule count_quotes_run [where b = b]) (use inp en run in simp_all)
  then have cq': "count_quotes ?q ?sA 0 = (n, ?sB)" by simp
  have eofB: "eof ?sB \<longleftrightarrow> b = []" using inp en by (auto simp: eof_def)
  have pkB: "b \<noteq> [] \<Longrightarrow> peek ?sB = hd b"
    using inp en by (cases b) (simp_all add: peek_def eof_def nth_append)
  have pkB0: "b = [] \<Longrightarrow> peek ?sB = CHR 0x00"
    using eofB by (simp add: peek_def)
  show ?thesis
  proof (cases "n = 3 \<or> b = [] \<or> hd b = CHR 0x0A \<or> hd b = CHR 0x0D")
    case True
    then have c: "n = 3 \<or> eof ?sB \<or> peek ?sB = CHR 0x0A \<or> peek ?sB = CHR 0x0D"
      using eofB pkB by auto
    have "parse_multiline_basic_string_loop ?sA (r @ s) = ((r @ s) @ replicate (n - 3) ?q, ?sB)"
      using neA pkA cq' run(1) c by (subst parse_multiline_basic_string_loop.simps) auto
    with l1 True show ?thesis by simp
  next
    case False
    then have c: "\<not> (n = 3 \<or> eof ?sB \<or> peek ?sB = CHR 0x0A \<or> peek ?sB = CHR 0x0D)"
      using eofB pkB by auto
    have "parse_multiline_basic_string_loop ?sA (r @ s)
          = parse_multiline_basic_string_loop ?sB ((r @ s) @ replicate (n - 3) ?q)"
      using neA pkA cq' run(1) c by (subst parse_multiline_basic_string_loop.simps) auto
    with l1 False show ?thesis by simp
  qed
qed

text \<open>
  Claim C8 (defect in the code). The value \<^verbatim>\<open>"""a""""" # c\<close> is a multiline basic string
  whose body ends with a run of five quotes: three close it and two belong to the
  content, so its content is \<^verbatim>\<open>a""\<close>. \<^verbatim>\<open>parse_value\<close> instead scans on through the blank and
  the comment to the end of the input, returns \<^verbatim>\<open>a"" # c\<close> and records
  "Unclosed multiline basic string": the closing test of the source accepts a run longer
  than three only before the end of the input, LF or CR.
\<close>

theorem multiline_five_quotes_before_comment:
  "parse_value 1 stod_total
     (on_input (replicate 3 (CHR 0x22) @ ''a'' @ replicate 5 (CHR 0x22) @ '' # c''))
   = Returns (String (''a'' @ replicate 2 (CHR 0x22) @ '' # c''))
       (set_error ''Unclosed multiline basic string''
          (on_input (replicate 3 (CHR 0x22) @ ''a'' @ replicate 5 (CHR 0x22) @ '' # c''))
             \<lparr>current := 13\<rparr>)"
  by code_simp

subsection \<open>The sticky error\<close>

text \<open>
  Every function of the parser leaves a recorded error as it is. The lemmas follow the
  call graph of the source from the leaves to \<^verbatim>\<open>parse_document\<close>.
\<close>

lemma outcome_has_simps [simp]:
  "outcome_has m (Returns v st') = (error_message st' = m)"
  "outcome_has m (Throws what st') = (error_message st' = m)"
  "outcome_has m OutOfFuel"
  by (simp_all add: outcome_has_def)

lemma em_set_error [simp]:
  "error_message (set_error m st) = (if error_message st = [] then m else error_message st)"
  by (simp add: set_error_def)

lemma em_advance [simp]: "error_message (snd (advance st)) = error_message st"
  by (simp add: advance_def)

lemma em_skip_whitespace [simp]: "error_message (skip_whitespace st) = error_message st"
  by (simp add: skip_whitespace_def)

lemma em_skip_whitespace_no_nl [simp]: "error_message (skip_whitespace_no_nl st) = error_message st"
  by (simp add: skip_whitespace_no_nl_def)

lemma em_skip_comment_loop [simp]: "error_message (skip_comment_loop st) = error_message st"
proof (induction st rule: skip_comment_loop.induct)
  case (1 st)
  show ?case using 1 by (subst skip_comment_loop.simps) simp
qed

lemma em_skip_comment [simp]: "error_message (skip_comment st) = error_message st"
  by (simp add: skip_comment_def)

lemma em_expect_char [simp]:
  "error_message st \<noteq> [] \<Longrightarrow> error_message (expect_char c st) = error_message st"
  by (simp add: expect_char_def)

lemma em_parse_unicode_escape_loop [simp]:
  "error_message st \<noteq> [] \<Longrightarrow>
   error_message (snd (parse_unicode_escape_loop k cp st)) = error_message st"
  by (induction k arbitrary: cp st) (simp_all add: Let_def)

lemma em_parse_unicode_escape [simp]:
  "error_message st \<noteq> [] \<Longrightarrow> error_message (snd (parse_unicode_escape n st)) = error_message st"
proof -
  assume a: "error_message st \<noteq> []"
  then have e: "error_message (snd (parse_unicode_escape_loop n 0 st)) = error_message st" by simp
  show ?thesis
    using a e
    by (cases "parse_unicode_escape_loop n 0 st")
       (auto simp: parse_unicode_escape_def split: sum.splits)
qed

lemma em_parse_escape_sequence [simp]:
  "error_message st \<noteq> [] \<Longrightarrow> error_message (snd (parse_escape_sequence st)) = error_message st"
  by (simp add: parse_escape_sequence_def Let_def)

lemma em_parse_basic_string_loop [simp]:
  "error_message st \<noteq> [] \<Longrightarrow>
   error_message (snd (parse_basic_string_loop st r)) = error_message st"
proof (induction st r rule: parse_basic_string_loop.induct)
  case (1 st result)
  show ?case using 1 by (subst parse_basic_string_loop.simps) (simp add: Let_def)
qed

lemma em_parse_basic_string [simp]:
  "error_message st \<noteq> [] \<Longrightarrow> error_message (snd (parse_basic_string st)) = error_message st"
  by (simp add: parse_basic_string_def Let_def)

lemma em_parse_literal_string_loop [simp]:
  "error_message (snd (parse_literal_string_loop st r)) = error_message st"
proof (induction st r rule: parse_literal_string_loop.induct)
  case (1 st result)
  show ?case using 1 by (subst parse_literal_string_loop.simps) simp
qed

lemma em_parse_literal_string [simp]:
  "error_message st \<noteq> [] \<Longrightarrow> error_message (snd (parse_literal_string st)) = error_message st"
  by (simp add: parse_literal_string_def Let_def)

lemma em_count_quotes [simp]: "error_message (snd (count_quotes q st n)) = error_message st"
proof (induction q st n rule: count_quotes.induct)
  case (1 q st n)
  show ?case using 1 by (subst count_quotes.simps) simp
qed

lemma em_parse_multiline_basic_string_loop [simp]:
  "error_message st \<noteq> [] \<Longrightarrow>
   error_message (snd (parse_multiline_basic_string_loop st r)) = error_message st"
proof (induction st r rule: parse_multiline_basic_string_loop.induct)
  case (1 st result)
  show ?case using 1 by (subst parse_multiline_basic_string_loop.simps) (simp add: Let_def)
qed

lemma em_parse_multiline_basic_string [simp]:
  "error_message st \<noteq> [] \<Longrightarrow>
   error_message (snd (parse_multiline_basic_string st)) = error_message st"
  by (simp add: parse_multiline_basic_string_def)

lemma em_parse_multiline_literal_string_loop [simp]:
  "error_message st \<noteq> [] \<Longrightarrow>
   error_message (snd (parse_multiline_literal_string_loop st r)) = error_message st"
proof (induction st r rule: parse_multiline_literal_string_loop.induct)
  case (1 st result)
  show ?case using 1 by (subst parse_multiline_literal_string_loop.simps) (simp add: Let_def)
qed

lemma em_parse_multiline_literal_string [simp]:
  "error_message st \<noteq> [] \<Longrightarrow>
   error_message (snd (parse_multiline_literal_string st)) = error_message st"
  by (simp add: parse_multiline_literal_string_def)

lemma em_parse_boolean [simp]:
  "error_message st \<noteq> [] \<Longrightarrow> error_message (snd (parse_boolean st)) = error_message st"
  by (simp add: parse_boolean_def)

lemma em_prefixed_digits_loop [simp]:
  "error_message (snd (prefixed_digits_loop base st acc)) = error_message st"
proof (induction base st acc rule: prefixed_digits_loop.induct)
  case (1 base st num_clean)
  show ?case using 1 by (subst prefixed_digits_loop.simps) simp
qed

lemma em_parse_prefixed_integer [simp]:
  "error_message st \<noteq> [] \<Longrightarrow>
   error_message (snd (parse_prefixed_integer base start st)) = error_message st"
  by (simp add: parse_prefixed_integer_def Let_def split: option.splits)

lemma em_number_loop [simp]:
  "error_message st \<noteq> [] \<Longrightarrow> error_message (snd (number_loop st d e)) = error_message st"
proof (induction st d e rule: number_loop.induct)
  case (1 st has_dot has_exp)
  show ?case using 1 by (subst number_loop.simps) simp
qed

lemma em_convert_number [simp]:
  "error_message st \<noteq> [] \<Longrightarrow>
   error_message (snd (convert_number stod start d e st)) = error_message st"
  by (simp add: convert_number_def Let_def split: option.splits)

lemma em_parse_decimal [simp]:
  "error_message st \<noteq> [] \<Longrightarrow> error_message (snd (parse_decimal stod start st)) = error_message st"
proof -
  assume a: "error_message st \<noteq> []"
  then have e: "error_message (snd (number_loop st False False)) = error_message st" by simp
  show ?thesis
    using a e
    by (cases "number_loop st False False")
       (auto simp: parse_decimal_def split: sum.splits)
qed

lemma em_parse_number [simp]:
  "error_message st \<noteq> [] \<Longrightarrow> error_message (snd (parse_number stod c st)) = error_message st"
  by (simp add: parse_number_def Let_def)

lemma em_bare_key_loop [simp]: "error_message (snd (bare_key_loop st key)) = error_message st"
proof (induction st key rule: bare_key_loop.induct)
  case (1 st key)
  show ?case using 1 by (subst bare_key_loop.simps) simp
qed

lemma em_parse_key [simp]:
  "error_message st \<noteq> [] \<Longrightarrow> error_message (snd (parse_key st)) = error_message st"
  by (simp add: parse_key_def Let_def)

lemma em_parse_dotted_key_loop:
  "error_message st = m \<Longrightarrow> m \<noteq> [] \<Longrightarrow> outcome_has m (parse_dotted_key_loop fuel st path)"
  by (induction fuel arbitrary: st path) (simp_all add: Let_def)

lemma em_parse_dotted_key:
  "error_message st = m \<Longrightarrow> m \<noteq> [] \<Longrightarrow> outcome_has m (parse_dotted_key fuel st)"
  by (simp add: parse_dotted_key_def Let_def em_parse_dotted_key_loop)

lemma em_array_skip_loop [simp]: "error_message (snd (array_skip_loop st)) = error_message st"
proof (induction st rule: array_skip_loop.induct)
  case (1 st0)
  show ?case using 1 by (subst array_skip_loop.simps) (simp add: Let_def)
qed

lemma em_datetime_exits [simp]:
  "outcome_has m (not_a_datetime start st) = (error_message st = m)"
  "outcome_has m (datetime_value v p st) = (error_message st = m)"
  "outcome_has m (datetime_error msg start st) = ((if error_message st = [] then msg else error_message st) = m)"
  by (simp_all add: not_a_datetime_def datetime_value_def datetime_error_def)

lemma em_try_parse_datetime_time:
  "error_message st = m \<Longrightarrow> m \<noteq> [] \<Longrightarrow>
   outcome_has m (try_parse_datetime_time stod start year month day p st)"
  by (simp add: try_parse_datetime_time_def Let_def
      split: option.splits prod.splits sum.splits)

lemma em_try_parse_datetime_date:
  "error_message st = m \<Longrightarrow> m \<noteq> [] \<Longrightarrow> outcome_has m (try_parse_datetime_date stod st)"
  by (simp add: try_parse_datetime_date_def Let_def em_try_parse_datetime_time
      split: option.splits prod.splits)

lemma em_try_parse_datetime_time_only:
  "error_message st = m \<Longrightarrow> m \<noteq> [] \<Longrightarrow> outcome_has m (try_parse_datetime_time_only st)"
  by (simp add: try_parse_datetime_time_only_def Let_def split: option.splits prod.splits)

lemma em_try_parse_datetime:
  "error_message st = m \<Longrightarrow> m \<noteq> [] \<Longrightarrow> outcome_has m (try_parse_datetime stod st)"
  by (simp add: try_parse_datetime_def em_try_parse_datetime_date em_try_parse_datetime_time_only)

lemma em_parse_value_number:
  assumes "error_message st = m" "m \<noteq> []"
  shows "outcome_has m (parse_value_number stod c st)"
proof -
  have d: "\<And>s. error_message s = m \<Longrightarrow> outcome_has m (try_parse_datetime stod s)"
    using assms(2) by (rule em_try_parse_datetime [rotated])
  have n: "\<And>s. error_message s = m \<Longrightarrow> error_message (snd (parse_number stod c s)) = m"
    using assms(2) by simp
  show ?thesis
  proof (cases "looks_like_date c st")
    case True
    show ?thesis
    proof (cases "try_parse_datetime stod st")
      case (Returns v s1)
      with d [OF assms(1)] have e1: "error_message s1 = m" by simp
      then have h1: "has_error s1" using assms(2) by (simp add: has_error_def)
      show ?thesis using True Returns e1 h1
        by (cases v) (simp_all add: parse_value_number_def)
    next
      case (Throws w s1)
      with d [OF assms(1)] show ?thesis using True by (simp add: parse_value_number_def)
    next
      case OutOfFuel
      then show ?thesis using True by (simp add: parse_value_number_def)
    qed
  next
    case False
    show ?thesis
    proof (cases "looks_like_time c st")
      case t: True
      show ?thesis
      proof (cases "try_parse_datetime stod st")
        case (Returns v s2)
        with d [OF assms(1)] have e2: "error_message s2 = m" by simp
        then have h2: "has_error s2" using assms(2) by (simp add: has_error_def)
        show ?thesis using False t Returns e2 h2
          by (cases v) (simp_all add: parse_value_number_def)
      next
        case (Throws w s2)
        with d [OF assms(1)] show ?thesis using False t by (simp add: parse_value_number_def)
      next
        case OutOfFuel
        then show ?thesis using False t by (simp add: parse_value_number_def)
      qed
    next
      case f: False
      show ?thesis using False f n [OF assms(1)]
        by (auto simp add: parse_value_number_def split: prod.splits)
    qed
  qed
qed

lemma em_heap [simp]:
  "error_message (snd (make_shared_Table st)) = error_message st"
  "error_message (snd (make_shared_Array st)) = error_message st"
  "error_message (set_in t key v st) = error_message st"
  "error_message (append_to a v st) = error_message st"
  by (simp_all add: make_shared_Table_def make_shared_Array_def set_in_def append_to_def)

lemma em_get_or_create_table_at_path_loop [simp]:
  "error_message st \<noteq> [] \<Longrightarrow>
   error_message (snd (get_or_create_table_at_path_loop path i t st)) = error_message st"
proof (induction path i t st rule: get_or_create_table_at_path_loop.induct)
  case (1 path i t st)
  show ?case using 1
    by (subst get_or_create_table_at_path_loop.simps)
       (simp add: Let_def split: toml_value.splits)
qed

lemma em_get_or_create_table_at_path [simp]:
  "error_message st \<noteq> [] \<Longrightarrow>
   error_message (snd (get_or_create_table_at_path path st)) = error_message st"
  by (simp add: get_or_create_table_at_path_def)

lemma em_array_append_prefix_loop [simp]:
  "error_message st \<noteq> [] \<Longrightarrow>
   error_message (snd (array_append_prefix_loop path i t st)) = error_message st"
proof (induction path i t st rule: array_append_prefix_loop.induct)
  case (1 path i t st)
  show ?case using 1
    by (subst array_append_prefix_loop.simps)
       (simp add: Let_def split: toml_value.splits)
qed

lemma em_array_append_last [simp]:
  "error_message st \<noteq> [] \<Longrightarrow>
   error_message (snd (array_append_last path t st)) = error_message st"
  by (simp add: array_append_last_def Let_def split: toml_value.splits)

lemma em_get_or_create_array_append_table [simp]:
  "error_message st \<noteq> [] \<Longrightarrow>
   error_message (snd (get_or_create_array_append_table path st)) = error_message st"
proof -
  assume a: "error_message st \<noteq> []"
  then have e: "error_message (snd (array_append_prefix_loop path 0 (root_table st) st)) = error_message st"
    by simp
  show ?thesis using a e
    by (cases "array_append_prefix_loop path 0 (root_table st) st")
       (auto simp: get_or_create_array_append_table_def split: option.splits)
qed

lemma em_set_value_prefix_loop [simp]:
  "error_message st \<noteq> [] \<Longrightarrow>
   error_message (snd (set_value_prefix_loop path i t st)) = error_message st"
proof (induction path i t st rule: set_value_prefix_loop.induct)
  case (1 path i t st)
  show ?case using 1
    by (subst set_value_prefix_loop.simps)
       (simp add: Let_def split: toml_value.splits)
qed

lemma em_set_value_at_path [simp]:
  "error_message st \<noteq> [] \<Longrightarrow> error_message (set_value_at_path table path v st) = error_message st"
proof -
  assume a: "error_message st \<noteq> []"
  then have e: "error_message (snd (set_value_prefix_loop path 0 table st)) = error_message st"
    by simp
  show ?thesis using a e
    by (cases "set_value_prefix_loop path 0 table st")
       (auto simp: set_value_at_path_def split: option.splits)
qed

lemma em_values:
  "error_message st = m \<Longrightarrow> m \<noteq> [] \<Longrightarrow>
   outcome_has m (parse_value fuel stod st)
   \<and> outcome_has m (parse_array fuel stod st)
   \<and> outcome_has m (parse_array_loop fuel stod a st)
   \<and> outcome_has m (parse_inline_table fuel stod st)
   \<and> outcome_has m (parse_inline_table_loop fuel stod t st)"
proof (induction fuel arbitrary: st a t)
  case 0
  show ?case by simp
next
  case (Suc fuel)
  note m = Suc.prems
  have ihv: "\<And>s. error_message s = m \<Longrightarrow> outcome_has m (parse_value fuel stod s)"
    and iha: "\<And>s. error_message s = m \<Longrightarrow> outcome_has m (parse_array fuel stod s)"
    and ihal: "\<And>s a. error_message s = m \<Longrightarrow> outcome_has m (parse_array_loop fuel stod a s)"
    and iht: "\<And>s. error_message s = m \<Longrightarrow> outcome_has m (parse_inline_table fuel stod s)"
    and ihtl: "\<And>s t. error_message s = m \<Longrightarrow> outcome_has m (parse_inline_table_loop fuel stod t s)"
    using Suc.IH m(2) by blast+
  have em: "error_message st = m" "error_message st \<noteq> []" using m by simp_all
  have v: "outcome_has m (parse_value (Suc fuel) stod st)"
  proof -
    let ?st = "skip_whitespace_no_nl st"
    have e: "error_message ?st = m" "error_message ?st \<noteq> []" using em by simp_all
    have n: "outcome_has m (parse_value_number stod (peek ?st) ?st)"
      using e m(2) by (intro em_parse_value_number) simp_all
    show ?thesis
      using e n iha [OF e(1)] iht [OF e(1)]
      by (auto simp add: Let_def case_prod_beta split: outcome.splits)
  qed
  have ar: "outcome_has m (parse_array (Suc fuel) stod st)"
  proof -
    let ?st1 = "skip_comment (skip_whitespace (expect_char (CHR ''['') st))"
    let ?st2 = "snd (make_shared_Array ?st1)"
    have e: "error_message ?st2 = m" "error_message ?st2 \<noteq> []" using em by simp_all
    show ?thesis
    proof (cases "parse_array_loop fuel stod (fst (make_shared_Array ?st1)) ?st2")
      case (Returns u st3)
      with ihal [OF e(1), of "fst (make_shared_Array ?st1)"] have "error_message st3 = m" by simp
      then show ?thesis using Returns e m(2) by (simp add: Let_def)
    next
      case (Throws w st3)
      with ihal [OF e(1), of "fst (make_shared_Array ?st1)"] have "error_message st3 = m" by simp
      then show ?thesis using Throws e by (simp add: Let_def)
    next
      case OutOfFuel
      then show ?thesis using e by (simp add: Let_def)
    qed
  qed
  have al: "outcome_has m (parse_array_loop (Suc fuel) stod a st)"
  proof (cases "eof st")
    case True
    then show ?thesis using em by simp
  next
    case False
    obtain g st1 where sk: "array_skip_loop st = (g, st1)" by (cases "array_skip_loop st")
    have e1: "error_message st1 = m"
      using em em_array_skip_loop [of st] sk by simp
    show ?thesis
    proof (cases g)
      case True
      then show ?thesis using False sk e1 by simp
    next
      case g: False
      show ?thesis
      proof (cases "parse_value fuel stod st1")
        case (Returns v st2)
        with ihv [OF e1] have e2: "error_message st2 = m" by simp
        let ?st3 = "skip_whitespace (skip_comment (skip_whitespace (append_to a v st2)))"
        have e3: "error_message ?st3 = m" using e2 by simp
        have r1: "outcome_has m (parse_array_loop fuel stod a (skip_comment (skip_whitespace (snd (advance ?st3)))))"
          by (rule ihal) (simp add: e2)
        have r2: "outcome_has m (parse_array_loop fuel stod a ?st3)"
          by (rule ihal) (rule e3)
        show ?thesis
          using False sk g Returns e3 r1 r2 m(2) by (simp add: Let_def)
      next
        case (Throws w st2)
        with ihv [OF e1] show ?thesis using False sk g by simp
      next
        case OutOfFuel
        then show ?thesis using False sk g by simp
      qed
    qed
  qed
  have it: "outcome_has m (parse_inline_table (Suc fuel) stod st)"
  proof -
    let ?st1 = "skip_whitespace_no_nl (expect_char (CHR ''{'') st)"
    let ?st2 = "snd (make_shared_Table ?st1)"
    have e: "error_message ?st2 = m" "error_message ?st2 \<noteq> []" using em by simp_all
    show ?thesis
    proof (cases "parse_inline_table_loop fuel stod (fst (make_shared_Table ?st1)) ?st2")
      case (Returns u st3)
      with ihtl [OF e(1), of "fst (make_shared_Table ?st1)"] have "error_message st3 = m" by simp
      then show ?thesis using Returns e m(2) by (simp add: Let_def)
    next
      case (Throws w st3)
      with ihtl [OF e(1), of "fst (make_shared_Table ?st1)"] have "error_message st3 = m" by simp
      then show ?thesis using Throws e by (simp add: Let_def)
    next
      case OutOfFuel
      then show ?thesis using e by (simp add: Let_def)
    qed
  qed
  have tl: "outcome_has m (parse_inline_table_loop (Suc fuel) stod t st)"
  proof (cases "eof st")
    case True
    then show ?thesis using em by simp
  next
    case False
    show ?thesis
    proof (cases "parse_dotted_key fuel st")
      case (Returns path st1)
      with em_parse_dotted_key [OF em(1) m(2), of fuel] have e1: "error_message st1 = m" by simp
      let ?sv = "skip_whitespace_no_nl (expect_char (CHR ''='') (skip_whitespace_no_nl st1))"
      have ev: "error_message ?sv = m" using e1 m(2) by simp
      show ?thesis
      proof (cases "path = []")
        case True
        then show ?thesis using False Returns e1 by simp
      next
        case ne: False
        show ?thesis
        proof (cases "parse_value fuel stod ?sv")
          case r: (Returns v st2)
          with ihv [OF ev] have e2: "error_message st2 = m" by simp
          let ?st3 = "skip_whitespace_no_nl (set_value_at_path t path v st2)"
          have e3: "error_message ?st3 = m" using e2 m(2) by simp
          have r1: "outcome_has m (parse_inline_table_loop fuel stod t
                       (skip_whitespace_no_nl (expect_char (CHR '','') ?st3)))"
            by (rule ihtl) (use e2 m(2) in simp)
          show ?thesis using False Returns ne r e3 r1 by (simp add: Let_def)
        next
          case (Throws w st2)
          with ihv [OF ev] show ?thesis using False Returns ne by simp
        next
          case OutOfFuel
          then show ?thesis using False Returns ne by simp
        qed
      qed
    next
      case (Throws w st1)
      with em_parse_dotted_key [OF em(1) m(2), of fuel] show ?thesis using False by simp
    next
      case OutOfFuel
      then show ?thesis using False by simp
    qed
  qed
  from v ar al it tl show ?case by blast
qed

lemma em_parse_key_value_pair:
  assumes "error_message st = m" "m \<noteq> []"
  shows "outcome_has m (parse_key_value_pair fuel stod table st)"
proof (cases "parse_dotted_key fuel st")
  case (Returns path st1)
  with em_parse_dotted_key [OF assms, of fuel] have e1: "error_message st1 = m" by simp
  let ?sv = "skip_whitespace_no_nl (expect_char (CHR ''='') (skip_whitespace_no_nl st1))"
  have ev: "error_message ?sv = m" using e1 assms(2) by simp
  show ?thesis
  proof (cases "parse_value fuel stod ?sv")
    case r: (Returns v st2)
    with em_values [OF ev assms(2), of fuel stod] have e2: "error_message st2 = m" by simp
    then show ?thesis using Returns r e1 assms(2) by (simp add: parse_key_value_pair_def)
  next
    case (Throws w st2)
    with em_values [OF ev assms(2), of fuel stod] show ?thesis
      using Returns e1 by (simp add: parse_key_value_pair_def)
  next
    case OutOfFuel
    then show ?thesis using Returns e1 by (simp add: parse_key_value_pair_def)
  qed
next
  case (Throws w st1)
  with em_parse_dotted_key [OF assms, of fuel] show ?thesis by (simp add: parse_key_value_pair_def)
next
  case OutOfFuel
  then show ?thesis by (simp add: parse_key_value_pair_def)
qed

lemma em_parse_header:
  assumes "error_message st = m" "m \<noteq> []"
  shows "outcome_has m (parse_header fuel st)"
proof -
  let ?st1 = "skip_whitespace (snd (advance st))"
  let ?st2 = "if peek ?st1 = CHR ''['' then skip_whitespace (snd (advance ?st1)) else ?st1"
  have e2: "error_message ?st2 = m" using assms by simp
  show ?thesis
  proof (cases "parse_dotted_key fuel ?st2")
    case (Returns path st3)
    with em_parse_dotted_key [OF e2 assms(2), of fuel] have e3: "error_message st3 = m" by simp
    show ?thesis using Returns e3 assms
      by (simp add: parse_header_def Let_def)
  next
    case (Throws w st3)
    with em_parse_dotted_key [OF e2 assms(2), of fuel] show ?thesis
      by (simp add: parse_header_def Let_def)
  next
    case OutOfFuel
    then show ?thesis by (simp add: parse_header_def Let_def)
  qed
qed

lemma em_parse_document_loop:
  "error_message st = m \<Longrightarrow> m \<noteq> [] \<Longrightarrow> outcome_has m (parse_document_loop fuel stod st)"
proof (induction fuel arbitrary: st)
  case 0
  show ?case by simp
next
  case (Suc fuel)
  let ?st = "skip_whitespace st"
  have e: "error_message ?st = m" using Suc.prems by simp
  have ih: "\<And>s. error_message s = m \<Longrightarrow> outcome_has m (parse_document_loop fuel stod s)"
    using Suc.IH Suc.prems(2) by blast
  have c: "outcome_has m (parse_document_loop fuel stod (skip_comment ?st))"
    by (rule ih) (use Suc.prems in simp)
  have h: "outcome_has m (case parse_header fuel ?st of
              Returns continue st1 \<Rightarrow>
                if continue then parse_document_loop fuel stod st1 else Returns () st1
            | Throws what st1 \<Rightarrow> Throws what st1
            | OutOfFuel \<Rightarrow> OutOfFuel)"
    using em_parse_header [OF e Suc.prems(2), of fuel] ih
    by (cases "parse_header fuel ?st") simp_all
  have k: "outcome_has m (case parse_key_value_pair fuel stod (the (current_table ?st)) ?st of
              Returns _ st1 \<Rightarrow>
                (let st2 = skip_whitespace st1;
                     st3 = (if \<not> eof st2 \<and> peek st2 \<noteq> CHR ''#'' \<and> peek st2 \<noteq> CHR ''[''
                            then skip_whitespace st2 else st2)
                 in parse_document_loop fuel stod st3)
            | Throws what st1 \<Rightarrow> Throws what st1
            | OutOfFuel \<Rightarrow> OutOfFuel)"
    using em_parse_key_value_pair [OF e Suc.prems(2), of fuel stod "the (current_table ?st)"] ih
    by (cases "parse_key_value_pair fuel stod (the (current_table ?st)) ?st") (simp_all add: Let_def)
  show ?case using Suc.prems e c h k by (simp add: Let_def)
qed

lemma em_parse_document:
  "error_message st = m \<Longrightarrow> m \<noteq> [] \<Longrightarrow> outcome_has m (parse_document fuel stod st)"
  by (simp add: parse_document_def em_parse_document_loop)

lemma set_error_fold:
  "error_message (fold set_error msgs (st\<lparr>error_message := []\<rparr>))
     = (case filter (\<lambda>m. m \<noteq> []) msgs of [] \<Rightarrow> [] | m # _ \<Rightarrow> m)"
proof -
  have keep: "\<And>s. error_message s \<noteq> [] \<Longrightarrow> fold set_error msgs s = s" for msgs
    by (induction msgs) (simp_all add: set_error_def)
  have "\<And>s. error_message s = [] \<Longrightarrow> error_message (fold set_error msgs s)
       = (case filter (\<lambda>m. m \<noteq> []) msgs of [] \<Rightarrow> [] | m # _ \<Rightarrow> m)"
  proof (induction msgs)
    case Nil
    then show ?case by simp
  next
    case (Cons m msgs)
    show ?case
    proof (cases "m = []")
      case True
      then have "set_error m s = s" using Cons.prems by (cases s) (simp add: set_error_def)
      with True Cons show ?thesis by simp
    next
      case False
      then have e: "error_message (set_error m s) = m" using Cons.prems by simp
      then have "fold set_error msgs (set_error m s) = set_error m s"
        using False by (intro keep) simp
      with False e show ?thesis by simp
    qed
  qed
  then show ?thesis by simp
qed

text \<open>
  Claim C6. \<^verbatim>\<open>set_error(msg)\<close> stores \<open>msg\<close> when no error is recorded and changes nothing
  otherwise, so after any sequence of \<^verbatim>\<open>set_error\<close> calls on a cleared parser the recorded
  message is the first non-empty one reported. No function of the parser clears or replaces
  a recorded error: started in a state whose \<^verbatim>\<open>error_message_\<close> is not empty, each of them,
  up to \<^verbatim>\<open>parse_document\<close>, ends (by returning or by throwing) in a state with the same
  message. \<^verbatim>\<open>parse\<close> clears the field once, before anything is parsed, and what it surfaces
  is the message of the state \<^verbatim>\<open>parse_document\<close> ended in: it returns a null pointer exactly
  when that message is not empty, and its catch block records \<^verbatim>\<open>e.what()\<close> only when
  nothing was recorded before the exception. Hence the error seen after \<^verbatim>\<open>parse\<close> is the
  first error recorded during that parse.
\<close>

theorem recorded_error_is_kept:
  "(error_message st = [] \<longrightarrow> set_error msg st = st\<lparr>error_message := msg\<rparr>)
   \<and> (error_message st \<noteq> [] \<longrightarrow> set_error msg st = st)
   \<and> (error_message (set_error msg st) = msg \<longleftrightarrow> error_message st = [] \<or> error_message st = msg)
   \<and> error_message (fold set_error msgs (st\<lparr>error_message := []\<rparr>))
       = (case filter (\<lambda>m. m \<noteq> []) msgs of [] \<Rightarrow> [] | m # _ \<Rightarrow> m)
   \<and> (error_message st \<noteq> [] \<longrightarrow>
        error_message (expect_char c st) = error_message st
        \<and> error_message (snd (advance st)) = error_message st
        \<and> error_message (skip_whitespace st) = error_message st
        \<and> error_message (skip_whitespace_no_nl st) = error_message st
        \<and> error_message (skip_comment st) = error_message st
        \<and> error_message (snd (parse_escape_sequence st)) = error_message st
        \<and> error_message (snd (parse_basic_string st)) = error_message st
        \<and> error_message (snd (parse_literal_string st)) = error_message st
        \<and> error_message (snd (parse_multiline_basic_string st)) = error_message st
        \<and> error_message (snd (parse_multiline_literal_string st)) = error_message st
        \<and> error_message (snd (parse_boolean st)) = error_message st
        \<and> error_message (snd (parse_number stod c st)) = error_message st
        \<and> error_message (snd (parse_key st)) = error_message st
        \<and> outcome_has (error_message st) (parse_dotted_key fuel st)
        \<and> outcome_has (error_message st) (try_parse_datetime stod st)
        \<and> outcome_has (error_message st) (parse_value fuel stod st)
        \<and> outcome_has (error_message st) (parse_array fuel stod st)
        \<and> outcome_has (error_message st) (parse_array_loop fuel stod a st)
        \<and> outcome_has (error_message st) (parse_inline_table fuel stod st)
        \<and> outcome_has (error_message st) (parse_inline_table_loop fuel stod t st)
        \<and> error_message (snd (get_or_create_table_at_path path st)) = error_message st
        \<and> error_message (snd (get_or_create_array_append_table path st)) = error_message st
        \<and> error_message (set_value_at_path t path v st) = error_message st
        \<and> outcome_has (error_message st) (parse_key_value_pair fuel stod t st)
        \<and> outcome_has (error_message st) (parse_header fuel st)
        \<and> outcome_has (error_message st) (parse_document_loop fuel stod st)
        \<and> outcome_has (error_message st) (parse_document fuel stod st))
   \<and> (case parse_document fuel stod
              (begin_document inp (st0\<lparr>error_message := [], array_of_tables_paths := {}\<rparr>)) of
         Returns u st4 \<Rightarrow>
           (if control_scan inp 0
            then \<exists>st'. parse fuel stod inp st0 = Some (None, st') \<and> error_message st' = control_message
            else if error_message st4 \<noteq> [] then parse fuel stod inp st0 = Some (None, st4)
            else parse fuel stod inp st0 = Some (Some (root_table st4), st4))
       | Throws what st4 \<Rightarrow>
           (if control_scan inp 0
            then \<exists>st'. parse fuel stod inp st0 = Some (None, st') \<and> error_message st' = control_message
            else \<exists>st'. parse fuel stod inp st0 = Some (None, st')
                       \<and> error_message st' = (if error_message st4 = [] then what else error_message st4))
       | OutOfFuel \<Rightarrow>
           (if control_scan inp 0
            then \<exists>st'. parse fuel stod inp st0 = Some (None, st') \<and> error_message st' = control_message
            else parse fuel stod inp st0 = None))"
proof -
  have a: "(error_message st = [] \<longrightarrow> set_error msg st = st\<lparr>error_message := msg\<rparr>)
   \<and> (error_message st \<noteq> [] \<longrightarrow> set_error msg st = st)
   \<and> (error_message (set_error msg st) = msg \<longleftrightarrow> error_message st = [] \<or> error_message st = msg)"
    by (auto simp add: set_error_def)
  have b: "error_message st \<noteq> [] \<longrightarrow>
        error_message (expect_char c st) = error_message st
        \<and> error_message (snd (advance st)) = error_message st
        \<and> error_message (skip_whitespace st) = error_message st
        \<and> error_message (skip_whitespace_no_nl st) = error_message st
        \<and> error_message (skip_comment st) = error_message st
        \<and> error_message (snd (parse_escape_sequence st)) = error_message st
        \<and> error_message (snd (parse_basic_string st)) = error_message st
        \<and> error_message (snd (parse_literal_string st)) = error_message st
        \<and> error_message (snd (parse_multiline_basic_string st)) = error_message st
        \<and> error_message (snd (parse_multiline_literal_string st)) = error_message st
        \<and> error_message (snd (parse_boolean st)) = error_message st
        \<and> error_message (snd (parse_number stod c st)) = error_message st
        \<and> error_message (snd (parse_key st)) = error_message st"
    by simp
  have c: "error_message st \<noteq> [] \<longrightarrow>
        outcome_has (error_message st) (parse_dotted_key fuel st)
        \<and> outcome_has (error_message st) (try_parse_datetime stod st)
        \<and> outcome_has (error_message st) (parse_value fuel stod st)
        \<and> outcome_has (error_message st) (parse_array fuel stod st)
        \<and> outcome_has (error_message st) (parse_array_loop fuel stod a st)
        \<and> outcome_has (error_message st) (parse_inline_table fuel stod st)
        \<and> outcome_has (error_message st) (parse_inline_table_loop fuel stod t st)"
    using em_values [OF refl, of st fuel stod a t] em_parse_dotted_key [OF refl, of st fuel]
      em_try_parse_datetime [OF refl, of st stod]
    by blast
  have d: "error_message st \<noteq> [] \<longrightarrow>
        error_message (snd (get_or_create_table_at_path path st)) = error_message st
        \<and> error_message (snd (get_or_create_array_append_table path st)) = error_message st
        \<and> error_message (set_value_at_path t path v st) = error_message st
        \<and> outcome_has (error_message st) (parse_key_value_pair fuel stod t st)
        \<and> outcome_has (error_message st) (parse_header fuel st)
        \<and> outcome_has (error_message st) (parse_document_loop fuel stod st)
        \<and> outcome_has (error_message st) (parse_document fuel stod st)"
    using em_parse_key_value_pair [OF refl, of st fuel stod t] em_parse_header [OF refl, of st fuel]
      em_parse_document_loop [OF refl, of st fuel stod] em_parse_document [OF refl, of st fuel stod]
    by simp
  have e: "case parse_document fuel stod
              (begin_document inp (st0\<lparr>error_message := [], array_of_tables_paths := {}\<rparr>)) of
         Returns u st4 \<Rightarrow>
           (if control_scan inp 0
            then \<exists>st'. parse fuel stod inp st0 = Some (None, st') \<and> error_message st' = control_message
            else if error_message st4 \<noteq> [] then parse fuel stod inp st0 = Some (None, st4)
            else parse fuel stod inp st0 = Some (Some (root_table st4), st4))
       | Throws what st4 \<Rightarrow>
           (if control_scan inp 0
            then \<exists>st'. parse fuel stod inp st0 = Some (None, st') \<and> error_message st' = control_message
            else \<exists>st'. parse fuel stod inp st0 = Some (None, st')
                       \<and> error_message st' = (if error_message st4 = [] then what else error_message st4))
       | OutOfFuel \<Rightarrow>
           (if control_scan inp 0
            then \<exists>st'. parse fuel stod inp st0 = Some (None, st') \<and> error_message st' = control_message
            else parse fuel stod inp st0 = None)"
    by (simp add: parse_def Let_def has_error_def control_message_def split: outcome.splits)
  from a set_error_fold [of msgs st] b c d e show ?thesis by blast
qed

theorem recorded_error_is_kept_witness:
  "error_message (set_error ''first'' TomlParser) = ''first''
   \<and> set_error ''second'' (set_error ''first'' TomlParser) = set_error ''first'' TomlParser
   \<and> error_message (expect_char (CHR ''='') (set_error ''first'' TomlParser)) = ''first''
   \<and> outcome_has ''first'' (parse_value 5 stod_total (set_error ''first'' (on_input ''[1, x]'')))
   \<and> outcome_has ''first'' (parse_document 9 stod_total (set_error ''first'' (on_input ''x = ?'')))
   \<and> (case parse 9 stod_total (''x = '' @ [CHR 0x22, CHR 0x5C, CHR ''q'']) TomlParser of
         None \<Rightarrow> False
       | Some (r, st') \<Rightarrow> r = None \<and> error_message st' = invalid_escape_message (CHR ''q''))"
proof -
  have p: "case parse 9 stod_total (''x = '' @ [CHR 0x22, CHR 0x5C, CHR ''q'']) TomlParser of
         None \<Rightarrow> False
       | Some (r, st') \<Rightarrow> r = None \<and> error_message st' = invalid_escape_message (CHR ''q'')"
    by code_simp
  have n: "error_message (set_error ''first'' TomlParser) \<noteq> []"
    "error_message (set_error ''first'' (on_input ''[1, x]'')) \<noteq> []"
    "error_message (set_error ''first'' (on_input ''x = ?'')) \<noteq> []"
    by (simp_all add: TomlParser_def on_input_def)
  have v: "error_message (set_error ''first'' TomlParser) = ''first''"
    "error_message (set_error ''first'' (on_input ''[1, x]'')) = ''first''"
    "error_message (set_error ''first'' (on_input ''x = ?'')) = ''first''"
    by (simp_all add: TomlParser_def on_input_def)
  show ?thesis
    using p n v
      recorded_error_is_kept [of "set_error ''first'' TomlParser" "''second''" "[]" "CHR ''=''"
        stod_total 0 0 0 "[]" "Integer 0" "[]" TomlParser]
      recorded_error_is_kept [of "set_error ''first'' (on_input ''[1, x]'')" "''second''" "[]" "CHR ''=''"
        stod_total 5 0 0 "[]" "Integer 0" "[]" TomlParser]
      recorded_error_is_kept [of "set_error ''first'' (on_input ''x = ?'')" "''second''" "[]" "CHR ''=''"
        stod_total 9 0 0 "[]" "Integer 0" "[]" TomlParser]
    by simp
qed

subsection \<open>Underscores in prefixed integers\<close>

text \<open>
  The loop over the digits of a \<^verbatim>\<open>0x\<close>, \<^verbatim>\<open>0o\<close> or \<^verbatim>\<open>0b\<close> literal consumes every underscore
  and keeps every digit; it looks neither at what stands before an underscore nor at what
  follows it.
\<close>

lemma prefixed_digits_loop_run:
  assumes "input st = a @ body @ rest" "current st = length a" "endp st = length (input st)"
    "\<forall>ch\<in>set body. ch = CHR ''_'' \<or> base_digit b ch"
    "rest = [] \<or> \<not> (hd rest = CHR ''_'' \<or> base_digit b (hd rest))"
  shows "prefixed_digits_loop b st acc
         = (acc @ filter (\<lambda>ch. ch \<noteq> CHR ''_'') body, st\<lparr>current := length a + length body\<rparr>)"
  using assms
proof (induction body arbitrary: a acc st)
  case Nil
  have same: "st\<lparr>current := length a\<rparr> = st" using Nil by (cases st) simp
  show ?case
  proof (cases "rest = []")
    case True
    then have "eof st" using Nil by (simp add: eof_def)
    then show ?thesis using same by (subst prefixed_digits_loop.simps) simp
  next
    case False
    then have ne: "\<not> eof st" using Nil by (simp add: eof_def)
    have pk: "peek st = hd rest" using Nil ne False by (simp add: peek_def hd_conv_nth nth_append)
    show ?thesis using Nil.prems(5) False pk same
      by (subst prefixed_digits_loop.simps) (auto simp add: base_digit_def)
  qed
next
  case (Cons c body)
  let ?st' = "st\<lparr>current := Suc (length a)\<rparr>"
  have ne: "\<not> eof st" using Cons.prems by (simp add: eof_def)
  have pk: "peek st = c" using Cons.prems ne by (simp add: peek_def)
  have adv: "advance st = (c, ?st')" using Cons.prems ne by (simp add: advance_def)
  have c: "c = CHR ''_'' \<or> base_digit b c" using Cons.prems by simp
  have "prefixed_digits_loop b st acc
        = prefixed_digits_loop b ?st' (if c \<noteq> CHR ''_'' then acc @ [c] else acc)"
    using c ne pk adv by (subst prefixed_digits_loop.simps) (auto simp add: base_digit_def)
  also have "\<dots> = ((if c \<noteq> CHR ''_'' then acc @ [c] else acc) @ filter (\<lambda>ch. ch \<noteq> CHR ''_'') body,
                    ?st'\<lparr>current := length (a @ [c]) + length body\<rparr>)"
    by (rule Cons.IH) (use Cons.prems in simp_all)
  finally show ?case by simp
qed

text \<open>
  Claim C7 (as the code has it). In a prefixed integer literal the digits may be separated
  by underscores, and the underscores are dropped wherever they stand, also in front of
  the first digit, behind the last one and doubled. The literal is the value of the
  remaining digits in its base; an error is recorded only when no digit remains or the
  digits do not fit 64 bits. So \<^verbatim>\<open>0x_1\<close> and \<^verbatim>\<open>0x1_\<close> yield 1 and \<^verbatim>\<open>0x1_0\<close> yields 16.
\<close>

theorem prefixed_integer_drops_underscores:
  assumes inp: "input st = a @ [CHR ''0'', x] @ body @ rest"
    and cur: "current st = length a" and en: "endp st = length (input st)"
    and x: "x \<in> set ''xXoObB''"
    and b: "b = (if x = CHR ''x'' \<or> x = CHR ''X'' then 16 else if x = CHR ''o'' \<or> x = CHR ''O'' then 8 else 2)"
    and body: "\<forall>ch\<in>set body. ch = CHR ''_'' \<or> base_digit b ch"
    and rest: "rest = [] \<or> \<not> (hd rest = CHR ''_'' \<or> base_digit b (hd rest))"
  shows "parse_number stod (CHR ''0'') st
         = (let ds = filter (\<lambda>ch. ch \<noteq> CHR ''_'') body;
                st' = st\<lparr>current := length a + 2 + length body\<rparr>
            in if ds = [] then (Integer 0, set_error ''Invalid integer literal'' st')
               else (case stoll ds b of
                       Some v \<Rightarrow> (Integer v, st')
                     | None \<Rightarrow> (Integer 0,
                                 set_error (''Invalid integer: '' @ [CHR ''0'', x] @ body) st')))"
proof -
  let ?st2 = "st\<lparr>current := current st + 2\<rparr>"
  let ?st' = "st\<lparr>current := length a + 2 + length body\<rparr>"
  have pb: "prefix_base st = b"
    using inp cur en x b by (auto simp add: prefix_base_def at_def nth_append)
  have b0: "b \<noteq> 0" using b by simp
  have loop: "prefixed_digits_loop b ?st2 []
              = ([] @ filter (\<lambda>ch. ch \<noteq> CHR ''_'') body, ?st2\<lparr>current := length (a @ [CHR ''0'', x]) + length body\<rparr>)"
    by (rule prefixed_digits_loop_run [where rest = rest]) (use inp cur en body rest in simp_all)
  have st2: "?st2\<lparr>current := length (a @ [CHR ''0'', x]) + length body\<rparr> = ?st'" by simp
  have z: "input st ! length a = CHR ''0''" using inp by (simp add: nth_append)
  have sl: "slice (input st) (length a) (length a + 2 + length body) = [CHR ''0'', x] @ body"
    using inp by (simp add: slice_def)
  show ?thesis
    using pb b0 loop z sl cur
    by (simp add: parse_number_def parse_prefixed_integer_def Let_def st2 split: option.splits)
qed

theorem prefixed_integer_drops_underscores_witness:
  "parse_number stod_total (CHR ''0'') (on_input ''0x_1'') = (Integer 1, (on_input ''0x_1'')\<lparr>current := 4\<rparr>)
   \<and> parse_number stod_total (CHR ''0'') (on_input ''0x1_'') = (Integer 1, (on_input ''0x1_'')\<lparr>current := 4\<rparr>)
   \<and> parse_number stod_total (CHR ''0'') (on_input ''0x1_0'') = (Integer 16, (on_input ''0x1_0'')\<lparr>current := 5\<rparr>)
   \<and> parse_number stod_total (CHR ''0'') (on_input ''0b__,'')
       = (Integer 0, set_error ''Invalid integer literal'' ((on_input ''0b__,'')\<lparr>current := 4\<rparr>))"
proof -
  have s: "stoll ''1'' 16 = Some 1" "stoll ''10'' 16 = Some 16" by code_simp+
  show ?thesis
    using s
      prefixed_integer_drops_underscores [of "on_input ''0x_1''" "[]" "CHR ''x''" "''_1''" "[]" 16 stod_total]
      prefixed_integer_drops_underscores [of "on_input ''0x1_''" "[]" "CHR ''x''" "''1_''" "[]" 16 stod_total]
      prefixed_integer_drops_underscores [of "on_input ''0x1_0''" "[]" "CHR ''x''" "''1_0''" "[]" 16 stod_total]
      prefixed_integer_drops_underscores [of "on_input ''0b__,''" "[]" "CHR ''b''" "''__''" "'',''" 2 stod_total]
    by (simp add: on_input_def TomlParser_def base_digit_def is_hex_def is_bin_def isdigit_def
          set_error_def eval_nat_numeral)
qed

text \<open>
  Claim C7 as the specification states it asks for an error on \<^verbatim>\<open>0x_1\<close> and on \<^verbatim>\<open>0x1_\<close>;
  \<^verbatim>\<open>parse_value\<close> returns the Integer 1 for both and records nothing.
\<close>

theorem underscore_not_between_digits_accepted:
  "parse_value 1 stod_total (on_input ''0x_1'') = Returns (Integer 1) ((on_input ''0x_1'')\<lparr>current := 4\<rparr>)
   \<and> \<not> has_error ((on_input ''0x_1'')\<lparr>current := 4\<rparr>)
   \<and> parse_value 1 stod_total (on_input ''0x1_'') = Returns (Integer 1) ((on_input ''0x1_'')\<lparr>current := 4\<rparr>)
   \<and> \<not> has_error ((on_input ''0x1_'')\<lparr>current := 4\<rparr>)"
  by code_simp

subsection \<open>Pre-validation\<close>

text \<open>
  The scanning loop at the head of \<^verbatim>\<open>parse\<close> leaves through one of its error exits exactly
  when some byte of the input is forbidden in the sense of the specification.
\<close>

lemma char_of_13: "(char_of (13 :: nat) :: char) = CHR 0x0D"
  by code_simp

lemma of_char_CR: "((of_char c :: nat) = 0x0D) = (c = CHR 0x0D)"
proof
  assume "(of_char c :: nat) = 0x0D"
  then have "char_of (of_char c :: nat) = (char_of (13 :: nat) :: char)" by simp
  then show "c = CHR 0x0D" by (simp add: char_of_13)
next
  assume "c = CHR 0x0D"
  then show "(of_char c :: nat) = 0x0D" by simp
qed

lemma spec_forbidden_at_step:
  "j < length inp \<Longrightarrow> spec_forbidden_at inp j
     = (if inp ! j = CHR 0x0D then j + 1 \<ge> length inp \<or> inp ! (j + 1) \<noteq> CHR 0x0A
        else is_forbidden_control (inp ! j))"
  using of_char_CR [of "inp ! j"]
  by (auto simp add: spec_forbidden_at_def is_forbidden_control_def Let_def)

lemma control_scan_finds:
  "control_scan inp i = (\<exists>j. i \<le> j \<and> j < length inp \<and> spec_forbidden_at inp j)"
proof (induction inp i rule: control_scan.induct)
  case (1 inp i)
  show ?case
  proof (cases "i < length inp")
    case False
    then show ?thesis by (subst control_scan.simps) auto
  next
    case True
    note lt = True
    show ?thesis
    proof (cases "spec_forbidden_at inp i")
      case True
      then have "control_scan inp i"
        using lt spec_forbidden_at_step [OF lt]
        by (subst control_scan.simps) (auto split: if_splits)
      then show ?thesis using True lt by auto
    next
      case False
      then have "control_scan inp i = control_scan inp (i + 1)"
        using lt spec_forbidden_at_step [OF lt]
        by (subst control_scan.simps) (auto split: if_splits)
      also have "\<dots> = (\<exists>j. i + 1 \<le> j \<and> j < length inp \<and> spec_forbidden_at inp j)"
        using lt False spec_forbidden_at_step [OF lt] "1.IH"
        by (auto split: if_splits)
      also have "\<dots> = (\<exists>j. i \<le> j \<and> j < length inp \<and> spec_forbidden_at inp j)"
      proof
        assume "\<exists>j. i + 1 \<le> j \<and> j < length inp \<and> spec_forbidden_at inp j"
        then obtain j where j: "i + 1 \<le> j" "j < length inp" "spec_forbidden_at inp j" by blast
        then have "i \<le> j" by simp
        then show "\<exists>j. i \<le> j \<and> j < length inp \<and> spec_forbidden_at inp j" using j by blast
      next
        assume "\<exists>j. i \<le> j \<and> j < length inp \<and> spec_forbidden_at inp j"
        then obtain j where j: "i \<le> j" "j < length inp" "spec_forbidden_at inp j" by blast
        then have "j \<noteq> i" using False by auto
        then have "i + 1 \<le> j" using j by simp
        then show "\<exists>j. i + 1 \<le> j \<and> j < length inp \<and> spec_forbidden_at inp j" using j by blast
      qed
      finally show ?thesis .
    qed
  qed
qed

text \<open>
  Claim C2. For an input that contains a forbidden byte, \<^verbatim>\<open>parse\<close> records the
  control-character error and returns a null pointer; apart from the error message and the
  cleared set of array-of-tables paths the parser is as it was, so no document parsing has
  taken place (cursor, end and root table are not even assigned). An input without a
  forbidden byte passes the scan, and the result of \<^verbatim>\<open>parse\<close> is that of \<^verbatim>\<open>parse_document\<close>
  on the freshly initialised parser.
\<close>

theorem forbidden_control_byte_rejected:
  "((\<exists>j<length inp. spec_forbidden_at inp j) \<longrightarrow>
      parse fuel stod inp st0
        = Some (None, st0\<lparr>error_message := control_message, array_of_tables_paths := {}\<rparr>))
   \<and> ((\<forall>j<length inp. \<not> spec_forbidden_at inp j) \<longrightarrow>
        \<not> control_scan inp 0
        \<and> parse fuel stod inp st0
          = (case parse_document fuel stod
                    (begin_document inp (st0\<lparr>error_message := [], array_of_tables_paths := {}\<rparr>)) of
               Returns u st4 \<Rightarrow> Some (if has_error st4 then (None, st4) else (Some (root_table st4), st4))
             | Throws what st4 \<Rightarrow> Some (None, set_error what st4)
             | OutOfFuel \<Rightarrow> None))"
proof -
  have scan: "control_scan inp 0 = (\<exists>j<length inp. spec_forbidden_at inp j)"
    by (simp add: control_scan_finds)
  have bad: "control_scan inp 0 \<Longrightarrow> parse fuel stod inp st0
        = Some (None, st0\<lparr>error_message := control_message, array_of_tables_paths := {}\<rparr>)"
    by (simp add: parse_def Let_def set_error_def)
  have good: "\<not> control_scan inp 0 \<Longrightarrow> parse fuel stod inp st0
          = (case parse_document fuel stod
                    (begin_document inp (st0\<lparr>error_message := [], array_of_tables_paths := {}\<rparr>)) of
               Returns u st4 \<Rightarrow> Some (if has_error st4 then (None, st4) else (Some (root_table st4), st4))
             | Throws what st4 \<Rightarrow> Some (None, set_error what st4)
             | OutOfFuel \<Rightarrow> None)"
    by (simp add: parse_def Let_def split: outcome.splits)
  show ?thesis using scan bad good by auto
qed

theorem forbidden_control_byte_rejected_witness:
  "parse 5 stod_total [CHR ''a'', CHR 0x0D, CHR ''b''] TomlParser
     = Some (None, TomlParser\<lparr>error_message := control_message, array_of_tables_paths := {}\<rparr>)
   \<and> parse 5 stod_total [CHR ''#'', CHR 0x7F] TomlParser
     = Some (None, TomlParser\<lparr>error_message := control_message, array_of_tables_paths := {}\<rparr>)
   \<and> \<not> control_scan [CHR 0x09, CHR 0x0D, CHR 0x0A] 0"
proof -
  have a: "\<exists>j<length [CHR ''a'', CHR 0x0D, CHR ''b'']. spec_forbidden_at [CHR ''a'', CHR 0x0D, CHR ''b''] j"
    by (rule exI [of _ 1]) (simp add: spec_forbidden_at_def)
  have b: "\<exists>j<length [CHR ''#'', CHR 0x7F]. spec_forbidden_at [CHR ''#'', CHR 0x7F] j"
    by (rule exI [of _ 1]) (simp add: spec_forbidden_at_def)
  have c: "\<forall>j<length [CHR 0x09, CHR 0x0D, CHR 0x0A]. \<not> spec_forbidden_at [CHR 0x09, CHR 0x0D, CHR 0x0A] j"
    by (simp add: spec_forbidden_at_def less_Suc_eq eval_nat_numeral)
  show ?thesis
    using a b c
      forbidden_control_byte_rejected [of "[CHR ''a'', CHR 0x0D, CHR ''b'']" 5 stod_total TomlParser]
      forbidden_control_byte_rejected [of "[CHR ''#'', CHR 0x7F]" 5 stod_total TomlParser]
      forbidden_control_byte_rejected [of "[CHR 0x09, CHR 0x0D, CHR 0x0A]" 5 stod_total TomlParser]
    by blast
qed

end
